theory Spec2Isabelle
  imports Complex_Main "HOL-Library.AList" "HOL-Library.Word"
begin

unbundle bit_operations_syntax

section \<open>JavaScript values\<close>

text \<open>
  The client is dynamically typed: cell values, row results and the results of
  \<^verbatim>\<open>retrieve\<close> are JavaScript values. Numbers are modelled by the integers: every
  number the client itself computes (TTLs in seconds, epoch times, counters, shard ids) is
  an integer, and below \<open>10^21\<close> the conversion of an integer to a string is its plain
  decimal form. An object is an association list in insertion order, which is the order of
  \<^verbatim>\<open>Object.keys\<close>.
\<close>

datatype js_value =
    Undefined
  | Null
  | Bool bool
  | Num int
  | Str string
  | Arr "js_value list"
  | Obj "(string \<times> js_value) list"

text \<open>An exception: the constructor is the error class, the argument its message.\<close>

datatype js_error = Error string | TypeError string

fun message :: "js_error \<Rightarrow> string" where
  "message (Error m) = m"
| "message (TypeError m) = m"

text \<open>ToBoolean: what \<^verbatim>\<open>!v\<close>, \<^verbatim>\<open>v && w\<close>, \<^verbatim>\<open>v || w\<close> and \<^verbatim>\<open>if (v)\<close> test.\<close>

fun truthy :: "js_value \<Rightarrow> bool" where
  "truthy Undefined = False"
| "truthy Null = False"
| "truthy (Bool b) = b"
| "truthy (Num n) = (n \<noteq> 0)"
| "truthy (Str s) = (s \<noteq> [])"
| "truthy (Arr xs) = True"
| "truthy (Obj kvs) = True"

text \<open>\<^verbatim>\<open>typeof v === "object"\<close>: true of arrays, objects and \<^verbatim>\<open>null\<close>.\<close>

fun typeof_object :: "js_value \<Rightarrow> bool" where
  "typeof_object Null = True"
| "typeof_object (Arr xs) = True"
| "typeof_object (Obj kvs) = True"
| "typeof_object v = False"

text \<open>\<^verbatim>\<open>a || b\<close> on values.\<close>

definition js_or :: "js_value \<Rightarrow> js_value \<Rightarrow> js_value" where
  "js_or a b = (if truthy a then a else b)"

subsection \<open>Numbers and strings\<close>

definition digit_char :: "nat \<Rightarrow> char" where
  "digit_char d = ''0123456789'' ! d"

fun nat_toString :: "nat \<Rightarrow> string" where
  "nat_toString n =
     (if n < 10 then [digit_char n]
      else nat_toString (n div 10) @ [digit_char (n mod 10)])"

declare nat_toString.simps [simp del]

text \<open>\<^verbatim>\<open>n.toString()\<close> and \<^verbatim>\<open>`${n}`\<close> for an integer \<open>n\<close>.\<close>

definition int_toString :: "int \<Rightarrow> string" where
  "int_toString i =
     (if i < 0 then CHR ''-'' # nat_toString (nat (- i)) else nat_toString (nat i))"

text \<open>\<^verbatim>\<open>s.startsWith(p)\<close>.\<close>

definition startsWith :: "string \<Rightarrow> string \<Rightarrow> bool" where
  "startsWith s p = (take (length p) s = p)"

text \<open>
  \<^verbatim>\<open>s.split(d)\<close> for a one-character delimiter: the pieces between the occurrences
  of \<open>d\<close>; a string without \<open>d\<close> is its only piece.
\<close>

fun split :: "char \<Rightarrow> string \<Rightarrow> string list" where
  "split d [] = [[]]"
| "split d (c # cs) =
     (if c = d then [] # split d cs
      else (case split d cs of
              [] \<Rightarrow> [[c]]
            | p # ps \<Rightarrow> (c # p) # ps))"

text \<open>\<^verbatim>\<open>xs[i]\<close> on an array: \<^verbatim>\<open>undefined\<close> (here \<open>None\<close>) out of range.\<close>

definition js_index :: "'a list \<Rightarrow> nat \<Rightarrow> 'a option" where
  "js_index xs i = (if i < length xs then Some (xs ! i) else None)"

text \<open>
  ToString on values, as applied by \<^verbatim>\<open>JSON.parse\<close> to a non-string argument.
  An array joins its elements with commas, \<^verbatim>\<open>null\<close> and \<^verbatim>\<open>undefined\<close>
  elements printing as nothing.
\<close>

fun join_comma :: "string list \<Rightarrow> string" where
  "join_comma [] = []"
| "join_comma [s] = s"
| "join_comma (s # t # ss) = s @ '','' @ join_comma (t # ss)"

fun js_ToString :: "js_value \<Rightarrow> string" where
  "js_ToString Undefined = ''undefined''"
| "js_ToString Null = ''null''"
| "js_ToString (Bool b) = (if b then ''true'' else ''false'')"
| "js_ToString (Num n) = int_toString n"
| "js_ToString (Str s) = s"
| "js_ToString (Arr xs) =
     join_comma (map (\<lambda>x. if x = Null \<or> x = Undefined then [] else js_ToString x) xs)"
| "js_ToString (Obj kvs) = ''[object Object]''"

section \<open>Cell codec\<close>

text \<open>
  \<^verbatim>\<open>JSON.stringify\<close> and \<^verbatim>\<open>JSON.parse\<close> are built-ins of the host, not code
  of the client: the codec takes them as the parameters \<open>stringify\<close> and \<open>parse\<close>,
  where \<open>parse s = None\<close> stands for the \<^verbatim>\<open>SyntaxError\<close> thrown on a text that is
  not JSON.
\<close>

text \<open>
  The body of the \<^verbatim>\<open>dataKeys.map\<close> callback of \<^verbatim>\<open>insert\<close>:
  \<^verbatim>\<open>sanitizedValue = (value && typeof value === "object") ? JSON.stringify(value) : value\<close>
  and then \<^verbatim>\<open>cleanedData[key] = sanitizedValue || ""\<close>.
\<close>

definition sanitizedValue :: "(js_value \<Rightarrow> string) \<Rightarrow> js_value \<Rightarrow> js_value" where
  "sanitizedValue stringify v =
     (if truthy v \<and> typeof_object v then Str (stringify v) else v)"

definition cleanedValue :: "(js_value \<Rightarrow> string) \<Rightarrow> js_value \<Rightarrow> js_value" where
  "cleanedValue stringify v = js_or (sanitizedValue stringify v) (Str '''')"

definition cleanedData ::
  "(js_value \<Rightarrow> string) \<Rightarrow> (string \<times> js_value) list \<Rightarrow> (string \<times> js_value) list" where
  "cleanedData stringify data =
     fold (\<lambda>(key, v) acc. AList.update key (cleanedValue stringify v) acc) data []"

text \<open>
  \<^verbatim>\<open>getParsedValue\<close>: \<^verbatim>\<open>JSON.parse(value)\<close> inside \<^verbatim>\<open>try\<close>, the
  argument converted to a string first; the \<^verbatim>\<open>catch\<close> leaves \<open>result = value\<close>.
\<close>

definition getParsedValue :: "(string \<Rightarrow> js_value option) \<Rightarrow> js_value \<Rightarrow> js_value" where
  "getParsedValue parse v =
     (case parse (js_ToString v) of
        Some r \<Rightarrow> r
      | None \<Rightarrow> v)"

section \<open>The store\<close>

text \<open>
  The column-family store is an external collaborator. Its state is modelled by two
  tables of rows; a row maps a family to its columns, a column to its cells, newest first.
  A row exists exactly when it holds a cell, so a row that loses its last cell vanishes.
  Cell timestamps are in microseconds, \<^verbatim>\<open>Date.now()\<close> in milliseconds.
\<close>

record cell =
  cell_value :: js_value
  cell_timestamp :: int

type_synonym family_data = "(string \<times> cell list) list"
type_synonym row_data = "(string \<times> family_data) list"
type_synonym table_rows = "(string \<times> row_data) list"

datatype table_id = Table | TableMetadata

text \<open>The requests the client sends to the store, logged in the order it dispatches them.\<close>

datatype call =
    TableInsert table_id string string "(string \<times> js_value) list"
  | RowExists table_id string
  | RowIncrement table_id string string string int
  | RowDeleteCells table_id string string string
  | RowDelete table_id string

record world =
  table :: table_rows
  tableMetadata :: table_rows
  now :: int
  calls :: "call list"

definition rows_of :: "world \<Rightarrow> table_id \<Rightarrow> table_rows" where
  "rows_of w tid = (case tid of Table \<Rightarrow> table w | TableMetadata \<Rightarrow> tableMetadata w)"

definition with_rows :: "table_id \<Rightarrow> table_rows \<Rightarrow> world \<Rightarrow> world" where
  "with_rows tid rows w =
     (case tid of Table \<Rightarrow> w\<lparr>table := rows\<rparr> | TableMetadata \<Rightarrow> w\<lparr>tableMetadata := rows\<rparr>)"

definition dispatch :: "call \<Rightarrow> world \<Rightarrow> world" where
  "dispatch c w = w\<lparr>calls := calls w @ [c]\<rparr>"

definition family_of :: "row_data \<Rightarrow> string \<Rightarrow> family_data" where
  "family_of rd fam = (case map_of rd fam of None \<Rightarrow> [] | Some fd \<Rightarrow> fd)"

definition row_of :: "table_rows \<Rightarrow> string \<Rightarrow> row_data" where
  "row_of rows key = (case map_of rows key of None \<Rightarrow> [] | Some rd \<Rightarrow> rd)"

definition put_cell :: "string \<Rightarrow> string \<Rightarrow> cell \<Rightarrow> row_data \<Rightarrow> row_data" where
  "put_cell fam col c rd = AList.update fam (AList.update col [c] (family_of rd fam)) rd"

fun put_cells :: "string \<Rightarrow> int \<Rightarrow> (string \<times> js_value) list \<Rightarrow> row_data \<Rightarrow> row_data" where
  "put_cells fam ts [] rd = rd"
| "put_cells fam ts ((col, v) # kvs) rd =
     put_cells fam ts kvs (put_cell fam col \<lparr>cell_value = v, cell_timestamp = ts\<rparr> rd)"

text \<open>
  Modelled from the spec: \<^verbatim>\<open>putCells(table, rowKey, family, mapping)\<close> of the store
  facade; the written cell replaces the column's cells (one version is kept).
\<close>

definition store_insert ::
  "table_rows \<Rightarrow> string \<Rightarrow> string \<Rightarrow> (string \<times> js_value) list \<Rightarrow> int \<Rightarrow> table_rows" where
  "store_insert rows key fam data ts =
     (if data = [] then rows
      else AList.update key (put_cells fam ts data (row_of rows key)) rows)"

text \<open>Modelled from the spec: \<^verbatim>\<open>rowExists(table, rowKey) -> bool\<close>.\<close>

definition store_exists :: "table_rows \<Rightarrow> string \<Rightarrow> bool" where
  "store_exists rows key = (map_of rows key \<noteq> None)"

text \<open>
  Modelled from the spec: \<^verbatim>\<open>incrementCell(table, rowKey, family:column, delta)\<close>;
  an absent cell counts as 0, a cell that holds no number is left alone.
\<close>

definition store_increment ::
  "table_rows \<Rightarrow> string \<Rightarrow> string \<Rightarrow> string \<Rightarrow> int \<Rightarrow> int \<Rightarrow> table_rows" where
  "store_increment rows key fam col delta ts =
     (let rd = row_of rows key;
          put = (\<lambda>n. AList.update key
                   (put_cell fam col \<lparr>cell_value = Num (n + delta), cell_timestamp = ts\<rparr> rd) rows)
      in case map_of (family_of rd fam) col of
           None \<Rightarrow> put 0
         | Some [] \<Rightarrow> put 0
         | Some (c # cs) \<Rightarrow> (case cell_value c of Num n \<Rightarrow> put n | _ \<Rightarrow> rows))"

text \<open>Modelled from the spec: \<^verbatim>\<open>deleteCells(table, rowKey, columns)\<close> for one column.\<close>

definition store_deleteCells :: "table_rows \<Rightarrow> string \<Rightarrow> string \<Rightarrow> string \<Rightarrow> table_rows" where
  "store_deleteCells rows key fam col =
     (case map_of rows key of
        None \<Rightarrow> rows
      | Some rd \<Rightarrow>
          (let fd = AList.delete col (family_of rd fam);
               rd' = (if fd = [] then AList.delete fam rd else AList.update fam fd rd)
           in if rd' = [] then AList.delete key rows else AList.update key rd' rows))"

text \<open>Modelled from the spec: \<^verbatim>\<open>deleteRow(table, rowKey)\<close>.\<close>

definition store_delete :: "table_rows \<Rightarrow> string \<Rightarrow> table_rows" where
  "store_delete rows key = AList.delete key rows"

text \<open>
  Modelled from the spec: \<^verbatim>\<open>getCell(table, rowKey, family, column?) -> value |
  row-map | null\<close>, "raising a distinguished unknown-row condition rather than a generic
  error when the row is absent". With a column the answer holds that column's cells only,
  and is \<^verbatim>\<open>null\<close> (\<open>None\<close>) when the row holds no cell under that column; otherwise
  the resolved value is an array whose first element is the row's data.
\<close>

definition store_get ::
  "table_rows \<Rightarrow> string \<Rightarrow> (string \<times> string) option \<Rightarrow> js_error + row_data list option" where
  "store_get rows key column =
     (case map_of rows key of
        None \<Rightarrow> Inl (Error (''Unknown row: '' @ key @ ''.''))
      | Some rd \<Rightarrow>
          (case column of
             None \<Rightarrow> Inr (Some [rd])
           | Some (fam, col) \<Rightarrow>
               (case map_of (family_of rd fam) col of
                  None \<Rightarrow> Inr None
                | Some cs \<Rightarrow> Inr (Some [[(fam, [(col, cs)])]]))))"

subsection \<open>Requests as steps of the world\<close>

definition table_insert ::
  "table_id \<Rightarrow> string \<Rightarrow> string \<Rightarrow> (string \<times> js_value) list \<Rightarrow> world \<Rightarrow> world" where
  "table_insert tid key fam data w =
     dispatch (TableInsert tid key fam data)
       (with_rows tid (store_insert (rows_of w tid) key fam data (now w * 1000)) w)"

definition row_exists :: "table_id \<Rightarrow> string \<Rightarrow> world \<Rightarrow> bool \<times> world" where
  "row_exists tid key w = (store_exists (rows_of w tid) key, dispatch (RowExists tid key) w)"

definition row_increment ::
  "table_id \<Rightarrow> string \<Rightarrow> string \<Rightarrow> string \<Rightarrow> int \<Rightarrow> world \<Rightarrow> world" where
  "row_increment tid key fam col delta w =
     dispatch (RowIncrement tid key fam col delta)
       (with_rows tid (store_increment (rows_of w tid) key fam col delta (now w * 1000)) w)"

definition row_deleteCells :: "table_id \<Rightarrow> string \<Rightarrow> string \<Rightarrow> string \<Rightarrow> world \<Rightarrow> world" where
  "row_deleteCells tid key fam col w =
     dispatch (RowDeleteCells tid key fam col)
       (with_rows tid (store_deleteCells (rows_of w tid) key fam col) w)"

definition row_delete :: "table_id \<Rightarrow> string \<Rightarrow> world \<Rightarrow> world" where
  "row_delete tid key w =
     dispatch (RowDelete tid key) (with_rows tid (store_delete (rows_of w tid) key) w)"

section \<open>The client\<close>

text \<open>
  What the client takes from its host: the JSON built-ins, \<^verbatim>\<open>murmur.v3\<close> of the
  \<^verbatim>\<open>murmurhash\<close> package, which returns an unsigned 32-bit number, and the
  conversion of a string to a number by the numeric-literal grammar (\<open>None\<close> is
  \<^verbatim>\<open>NaN\<close>).
\<close>

record host =
  JSON_stringify :: "js_value \<Rightarrow> string"
  JSON_parse :: "string \<Rightarrow> js_value option"
  murmur_v3 :: "string \<Rightarrow> int \<Rightarrow> 32 word"
  StringToNumber :: "string \<Rightarrow> int option"

text \<open>The fields of \<^verbatim>\<open>BigtableClient\<close> that the modelled methods read.\<close>

record client =
  cfName :: string
  cfNameMetadata :: string
  defaultColumn :: string
  intervalInMs :: int
  minJitterMs :: int
  maxJitterMs :: int
  clusterCount :: nat
  murmurSeed :: int

record config =
  cfg_columnFamily :: "string option"
  cfg_defaultColumn :: "string option"

definition DEFAULT_TTL_SCAN_INTERVAL_MS :: int where "DEFAULT_TTL_SCAN_INTERVAL_MS = 5000"
definition DEFAULT_MIN_JITTER_MS :: int where "DEFAULT_MIN_JITTER_MS = 2000"
definition DEFAULT_MAX_JITTER_MS :: int where "DEFAULT_MAX_JITTER_MS = 30000"
definition DEFAULT_CLUSTER_COUNT :: nat where "DEFAULT_CLUSTER_COUNT = 3"
definition DEFAULT_MURMUR_SEED :: int where "DEFAULT_MURMUR_SEED = 1"
definition DEFAULT_COLUMN :: string where "DEFAULT_COLUMN = ''value''"
definition DEFAULT_COLUMN_FAMILY :: string where "DEFAULT_COLUMN_FAMILY = ''default''"
definition COUNTS :: string where "COUNTS = ''counts''"

text \<open>\<^verbatim>\<open>n || d\<close> on an optional number and \<^verbatim>\<open>s || d\<close> on an optional string.\<close>

definition int_or :: "int option \<Rightarrow> int \<Rightarrow> int" where
  "int_or n d = (case n of None \<Rightarrow> d | Some i \<Rightarrow> if i = 0 then d else i)"

definition nat_or :: "nat option \<Rightarrow> nat \<Rightarrow> nat" where
  "nat_or n d = (case n of None \<Rightarrow> d | Some i \<Rightarrow> if i = 0 then d else i)"

definition str_or :: "string option \<Rightarrow> string \<Rightarrow> string" where
  "str_or s d = (case s of None \<Rightarrow> d | Some t \<Rightarrow> if t = [] then d else t)"

text \<open>
  The constructor of the client with sharded markers, followed by the assignments of
  \<^verbatim>\<open>init\<close> to \<open>defaultColumn\<close>, \<open>cfName\<close> and \<open>cfNameMetadata\<close> (the ids of
  the families \<open>columnFamily\<close> and \<open>columnFamily_metadata\<close>).
\<close>

definition BigtableClient ::
  "config \<Rightarrow> int option \<Rightarrow> int option \<Rightarrow> int option \<Rightarrow> nat option \<Rightarrow> int option \<Rightarrow> client" where
  "BigtableClient cfg interval minJitter maxJitter count seed =
     (let columnFamily = (case cfg_columnFamily cfg of None \<Rightarrow> DEFAULT_COLUMN_FAMILY | Some f \<Rightarrow> f)
      in \<lparr>cfName = columnFamily,
          cfNameMetadata = columnFamily @ ''_metadata'',
          defaultColumn = (case cfg_defaultColumn cfg of None \<Rightarrow> DEFAULT_COLUMN | Some d \<Rightarrow> d),
          intervalInMs = int_or interval DEFAULT_TTL_SCAN_INTERVAL_MS,
          minJitterMs = int_or minJitter DEFAULT_MIN_JITTER_MS,
          maxJitterMs = int_or maxJitter DEFAULT_MAX_JITTER_MS,
          clusterCount = nat_or count DEFAULT_CLUSTER_COUNT,
          murmurSeed = int_or seed DEFAULT_MURMUR_SEED\<rparr>)"

text \<open>
  \<^verbatim>\<open>getTTLRowKey(ttl)\<close>, with \<^verbatim>\<open>Date.now()\<close> as the argument \<open>t\<close>. On
  non-negative integers \<^verbatim>\<open>%\<close> is \<open>mod\<close>; by zero it is \<^verbatim>\<open>NaN\<close>.
\<close>

definition salt :: "host \<Rightarrow> client \<Rightarrow> int \<Rightarrow> nat" where
  "salt h c deleteTimestamp =
     unat (murmur_v3 h (int_toString deleteTimestamp) (murmurSeed c)) mod clusterCount c"

definition getTTLRowKey :: "host \<Rightarrow> client \<Rightarrow> int \<Rightarrow> int \<Rightarrow> string" where
  "getTTLRowKey h c t ttl =
     (let deleteTimestamp = t + 1000 * ttl
      in ''ttl#''
         @ (if clusterCount c = 0 then ''NaN'' else nat_toString (salt h c deleteTimestamp))
         @ ''#'' @ int_toString deleteTimestamp)"

text \<open>
  \<^verbatim>\<open>insert(table, cfName, rowKey, data)\<close>. The table handles exist once the client is
  initialised and \<open>data\<close> is an object, so of the guard
  \<^verbatim>\<open>!table || !rowKey || !data\<close> only \<^verbatim>\<open>!rowKey\<close> can hold.
\<close>

definition insert_cells ::
  "host \<Rightarrow> table_id \<Rightarrow> string \<Rightarrow> string \<Rightarrow> (string \<times> js_value) list \<Rightarrow> world \<Rightarrow> world" where
  "insert_cells h tid cf rowKey data w =
     (if rowKey = [] then w
      else table_insert tid rowKey cf (cleanedData (JSON_stringify h) data) w)"

text \<open>
  A cell as the object the store hands out. The store prints the timestamp in decimal and
  the client reads it back with \<^verbatim>\<open>parseInt\<close> or by arithmetic; the model keeps the
  number.
\<close>

definition cell_obj :: "cell \<Rightarrow> js_value" where
  "cell_obj c =
     Obj [(''value'', cell_value c), (''labels'', Arr []),
          (''timestamp'', Num (cell_timestamp c))]"

text \<open>
  \<^verbatim>\<open>rowGet[0] && rowGet[0][cfName] && rowGet[0][cfName][columnName]
  && rowGet[0][cfName][columnName][0]\<close>: objects and arrays are truthy, so the chain stops
  at the first \<^verbatim>\<open>undefined\<close> and is then \<^verbatim>\<open>undefined\<close> itself (\<open>None\<close>).
\<close>

definition singleResult :: "row_data list \<Rightarrow> string \<Rightarrow> string \<Rightarrow> cell option" where
  "singleResult rowGet cf columnName =
     (case js_index rowGet 0 of
        None \<Rightarrow> None
      | Some rd \<Rightarrow>
          (case map_of rd cf of
             None \<Rightarrow> None
           | Some fd \<Rightarrow>
               (case map_of fd columnName of
                  None \<Rightarrow> None
                | Some cs \<Rightarrow> js_index cs 0)))"

text \<open>The \<^verbatim>\<open>Object.keys(rowData).forEach\<close> loop of \<^verbatim>\<open>retrieve\<close>.\<close>

definition rowResult :: "host \<Rightarrow> bool \<Rightarrow> family_data \<Rightarrow> (string \<times> js_value) list" where
  "rowResult h complete' rowData =
     fold (\<lambda>(columnKey, cs) result.
             (case js_index cs 0 of
                None \<Rightarrow> result
              | Some c \<Rightarrow>
                  if truthy (cell_value c)
                  then AList.update columnKey
                         (if complete' then cell_obj c
                          else getParsedValue (JSON_parse h) (cell_value c)) result
                  else result))
          rowData []"

text \<open>
  \<^verbatim>\<open>retrieve(table, cfName, rowKey, column?, complete?)\<close>. The argument \<open>row_get\<close> is
  what \<^verbatim>\<open>await row.get(identifier ? [identifier] : undefined)\<close> does on this row:
  \<open>Inl\<close> the error it throws, \<open>Inr\<close> the value it resolves to (\<open>None\<close> a falsy one).
  Reading \<^verbatim>\<open>.value\<close> of \<^verbatim>\<open>undefined\<close> throws a \<^verbatim>\<open>TypeError\<close>.
\<close>

definition retrieve ::
  "host \<Rightarrow> string \<Rightarrow> string \<Rightarrow> string option \<Rightarrow> bool
   \<Rightarrow> ((string \<times> string) option \<Rightarrow> js_error + row_data list option)
   \<Rightarrow> js_error + js_value" where
  "retrieve h cf rowKey column complete' row_get =
     (if rowKey = [] then Inr Undefined
      else
        let columnName = (case column of
                            None \<Rightarrow> None
                          | Some col \<Rightarrow> if col = [] then None else Some col);
            identifier = map_option (\<lambda>col. (cf, col)) columnName
        in case row_get identifier of
             Inl error \<Rightarrow>
               if \<not> startsWith (message error) ''Unknown row'' then Inl error else Inr Null
           | Inr None \<Rightarrow> Inr Null
           | Inr (Some rowGet) \<Rightarrow>
               (case columnName of
                  Some col \<Rightarrow>
                    (case singleResult rowGet cf col of
                       None \<Rightarrow>
                         if complete' then Inr Undefined
                         else Inl (TypeError ''Cannot read property value of undefined'')
                     | Some c \<Rightarrow> Inr (if complete' then cell_obj c else cell_value c))
                | None \<Rightarrow>
                    (case js_index rowGet 0 of
                       None \<Rightarrow> Inr (Obj [])
                     | Some rd \<Rightarrow>
                         (case map_of rd cf of
                            None \<Rightarrow> Inr (Obj [])
                          | Some rowData \<Rightarrow> Inr (Obj (rowResult h complete' rowData))))))"

text \<open>\<^verbatim>\<open>get(rowKey, column?)\<close>, \<^verbatim>\<open>getRow(rowKey)\<close> and \<^verbatim>\<open>count()\<close>.\<close>

definition get :: "host \<Rightarrow> client \<Rightarrow> string \<Rightarrow> string option \<Rightarrow> world \<Rightarrow> js_error + js_value" where
  "get h c rowKey column w =
     (if rowKey = [] then Inr Undefined
      else
        let columnName = str_or column (defaultColumn c)
        in retrieve h (cfName c) rowKey (Some columnName) False (store_get (table w) rowKey))"

definition getRow :: "host \<Rightarrow> client \<Rightarrow> string \<Rightarrow> world \<Rightarrow> js_error + js_value" where
  "getRow h c rowKey w = retrieve h (cfName c) rowKey None False (store_get (table w) rowKey)"

definition count :: "host \<Rightarrow> client \<Rightarrow> world \<Rightarrow> js_error + js_value" where
  "count h c w =
     (case retrieve h (cfNameMetadata c) COUNTS (Some COUNTS) False
             (store_get (tableMetadata w) COUNTS) of
        Inl error \<Rightarrow> Inl error
      | Inr counts \<Rightarrow> Inr (js_or counts (Num 0)))"

text \<open>
  \<^verbatim>\<open>delete(rowKey, column?)\<close>: \<^verbatim>\<open>deleteCells\<close> is awaited, then the existence
  check, then the decrement.
\<close>

definition delete :: "client \<Rightarrow> string \<Rightarrow> string option \<Rightarrow> world \<Rightarrow> world" where
  "delete c rowKey column w =
     (if rowKey = [] then w
      else
        let columnName = str_or column (defaultColumn c);
            w1 = row_deleteCells Table rowKey (cfName c) columnName w;
            (rowExists, w2) = row_exists Table rowKey w1
        in if \<not> rowExists
           then row_increment TableMetadata COUNTS (cfNameMetadata c) COUNTS (- 1) w2
           else w2)"

text \<open>
  \<^verbatim>\<open>deleteRow(rowKey)\<close>: the array handed to \<^verbatim>\<open>Promise.all\<close> is built left to
  right, so the decrement is dispatched first and the row delete second.
\<close>

definition deleteRow :: "client \<Rightarrow> string \<Rightarrow> world \<Rightarrow> world" where
  "deleteRow c rowKey w =
     (if rowKey = [] then w
      else row_delete Table rowKey
             (row_increment TableMetadata COUNTS (cfNameMetadata c) COUNTS (- 1) w))"

subsection \<open>Writes of the client with sharded markers\<close>

text \<open>\<^verbatim>\<open>if (ttl)\<close> on the optional number \<open>ttl\<close>.\<close>

definition truthy_ttl :: "int option \<Rightarrow> int option" where
  "truthy_ttl ttl = (case ttl of None \<Rightarrow> None | Some n \<Rightarrow> if n = 0 then None else Some n)"

definition columnQualifier :: "client \<Rightarrow> string \<Rightarrow> string \<Rightarrow> string" where
  "columnQualifier c rowKey columnName = cfName c @ ''#'' @ rowKey @ ''#'' @ columnName"

text \<open>The \<^verbatim>\<open>if (ttl) { ... }\<close> block shared by the four writes.\<close>

definition marker_write ::
  "host \<Rightarrow> client \<Rightarrow> string \<Rightarrow> string list \<Rightarrow> int option \<Rightarrow> world \<Rightarrow> world" where
  "marker_write h c rowKey columnNames ttl w =
     (case truthy_ttl ttl of
        None \<Rightarrow> w
      | Some n \<Rightarrow>
          let ttlRowKey = getTTLRowKey h c (now w) n;
              ttlData = fold (\<lambda>columnName acc.
                                AList.update (columnQualifier c rowKey columnName) (Num n) acc)
                             columnNames []
          in insert_cells h TableMetadata (cfNameMetadata c) ttlRowKey ttlData w)"

text \<open>
  \<^verbatim>\<open>const rowExists = await ...exists(); if (!rowExists || !rowExists[0])
  insertPromises.push(...increment(counts, 1))\<close>.
\<close>

definition count_new_row :: "client \<Rightarrow> string \<Rightarrow> world \<Rightarrow> world" where
  "count_new_row c rowKey w =
     (let (rowExists, w1) = row_exists Table rowKey w
      in if \<not> rowExists
         then row_increment TableMetadata COUNTS (cfNameMetadata c) COUNTS 1 w1
         else w1)"

definition set_part_000 ::
  "host \<Rightarrow> client \<Rightarrow> string \<Rightarrow> js_value \<Rightarrow> int option \<Rightarrow> string option \<Rightarrow> world \<Rightarrow> world" where
  "set_part_000 h c rowKey v ttl column w =
     (let columnName = str_or column (defaultColumn c);
          data = [(columnName, v)];
          w1 = marker_write h c rowKey [columnName] ttl w;
          w2 = count_new_row c rowKey w1
      in insert_cells h Table (cfName c) rowKey data w2)"

definition multiSet_part_000 ::
  "host \<Rightarrow> client \<Rightarrow> string \<Rightarrow> (string \<times> js_value) list \<Rightarrow> int option \<Rightarrow> world \<Rightarrow> world" where
  "multiSet_part_000 h c rowKey columnsObject ttl w =
     (let columnNames = map fst columnsObject
      in if columnNames = [] then w
         else
           let w1 = marker_write h c rowKey columnNames ttl w;
               w2 = count_new_row c rowKey w1
           in insert_cells h Table (cfName c) rowKey columnsObject w2)"

definition add_part_000 ::
  "int \<Rightarrow> host \<Rightarrow> client \<Rightarrow> string \<Rightarrow> string option \<Rightarrow> int option \<Rightarrow> world \<Rightarrow> world" where
  "add_part_000 delta h c rowKey column ttl w =
     (if rowKey = [] then w
      else
        let columnName = str_or column (defaultColumn c);
            w1 = marker_write h c rowKey [columnName] ttl w;
            w2 = count_new_row c rowKey w1
        in row_increment Table rowKey (cfName c) columnName delta w2)"

text \<open>\<^verbatim>\<open>increase\<close> and \<^verbatim>\<open>decrease\<close> differ in the increment only.\<close>

definition increase_part_000 ::
  "host \<Rightarrow> client \<Rightarrow> string \<Rightarrow> string option \<Rightarrow> int option \<Rightarrow> world \<Rightarrow> world" where
  "increase_part_000 = add_part_000 1"

definition decrease_part_000 ::
  "host \<Rightarrow> client \<Rightarrow> string \<Rightarrow> string option \<Rightarrow> int option \<Rightarrow> world \<Rightarrow> world" where
  "decrease_part_000 = add_part_000 (- 1)"

subsection \<open>Writes of the client in lib/BigtableClient.ts\<close>

text \<open>
  Here the marker of a cell is the metadata row \<open>rowKey#cfName:columnName\<close> with the
  single column \<open>ttl\<close>, and the primary write is the first element of
  \<open>insertPromises\<close>: it is dispatched before the existence check is awaited.
\<close>

definition ttlRowKey_lib :: "client \<Rightarrow> string \<Rightarrow> string \<Rightarrow> string" where
  "ttlRowKey_lib c rowKey columnName = rowKey @ ''#'' @ cfName c @ '':'' @ columnName"

definition marker_write_lib ::
  "host \<Rightarrow> client \<Rightarrow> string \<Rightarrow> string list \<Rightarrow> int option \<Rightarrow> world \<Rightarrow> world" where
  "marker_write_lib h c rowKey columnNames ttl w =
     (case truthy_ttl ttl of
        None \<Rightarrow> w
      | Some n \<Rightarrow>
          fold (\<lambda>columnName. insert_cells h TableMetadata (cfNameMetadata c)
                                (ttlRowKey_lib c rowKey columnName) [(''ttl'', Num n)])
               columnNames w)"

definition set_lib ::
  "host \<Rightarrow> client \<Rightarrow> string \<Rightarrow> js_value \<Rightarrow> int option \<Rightarrow> string option \<Rightarrow> world \<Rightarrow> world" where
  "set_lib h c rowKey v ttl column w =
     (let columnName = str_or column (defaultColumn c);
          data = [(columnName, v)];
          w1 = insert_cells h Table (cfName c) rowKey data w;
          w2 = count_new_row c rowKey w1
      in marker_write_lib h c rowKey [columnName] ttl w2)"

definition multiSet_lib ::
  "host \<Rightarrow> client \<Rightarrow> string \<Rightarrow> (string \<times> js_value) list \<Rightarrow> int option \<Rightarrow> world \<Rightarrow> world" where
  "multiSet_lib h c rowKey columnsObject ttl w =
     (let keys = map fst columnsObject
      in if keys = [] then w
         else
           let w1 = insert_cells h Table (cfName c) rowKey columnsObject w;
               w2 = count_new_row c rowKey w1
           in marker_write_lib h c rowKey keys ttl w2)"

definition add_lib ::
  "int \<Rightarrow> host \<Rightarrow> client \<Rightarrow> string \<Rightarrow> string option \<Rightarrow> int option \<Rightarrow> world \<Rightarrow> world" where
  "add_lib delta h c rowKey column ttl w =
     (if rowKey = [] then w
      else
        let columnName = str_or column (defaultColumn c);
            w1 = row_increment Table rowKey (cfName c) columnName delta w;
            w2 = count_new_row c rowKey w1
        in marker_write_lib h c rowKey [columnName] ttl w2)"

definition increase_lib ::
  "host \<Rightarrow> client \<Rightarrow> string \<Rightarrow> string option \<Rightarrow> int option \<Rightarrow> world \<Rightarrow> world" where
  "increase_lib = add_lib 1"

definition decrease_lib ::
  "host \<Rightarrow> client \<Rightarrow> string \<Rightarrow> string option \<Rightarrow> int option \<Rightarrow> world \<Rightarrow> world" where
  "decrease_lib = add_lib (- 1)"

subsection \<open>Remaining time to live (lib/BigtableClient.ts)\<close>

text \<open>ToNumber, as applied by \<^verbatim>\<open>*\<close> and \<^verbatim>\<open>/\<close>; \<open>None\<close> is \<^verbatim>\<open>NaN\<close>.\<close>

definition js_ToNumber :: "host \<Rightarrow> js_value \<Rightarrow> int option" where
  "js_ToNumber h v =
     (case v of
        Undefined \<Rightarrow> None
      | Null \<Rightarrow> Some 0
      | Bool b \<Rightarrow> Some (if b then 1 else 0)
      | Num n \<Rightarrow> Some n
      | Str s \<Rightarrow> StringToNumber h s
      | _ \<Rightarrow> StringToNumber h (js_ToString v))"

text \<open>
  \<^verbatim>\<open>x.toFixed(0)\<close> read back by \<^verbatim>\<open>parseInt\<close>: the nearest integer, a tie going
  away from zero. Numbers are exact rationals here.
\<close>

definition toFixed0 :: "rat \<Rightarrow> int" where
  "toFixed0 x = (if 0 \<le> x then \<lfloor>x + 1 / 2\<rfloor> else - \<lfloor>- x + 1 / 2\<rfloor>)"

text \<open>\<^verbatim>\<open>rowComplete.timestamp\<close> as a number, \<open>None\<close> where it is \<^verbatim>\<open>NaN\<close>.\<close>

definition timestamp_of :: "js_value \<Rightarrow> int option" where
  "timestamp_of v =
     (case v of
        Obj kvs \<Rightarrow> (case map_of kvs ''timestamp'' of Some (Num n) \<Rightarrow> Some n | _ \<Rightarrow> None)
      | _ \<Rightarrow> None)"

text \<open>
  \<^verbatim>\<open>ttl(rowKey, column?)\<close>. Reading \<^verbatim>\<open>.timestamp\<close> of \<^verbatim>\<open>null\<close> or
  \<^verbatim>\<open>undefined\<close> throws; a comparison with \<^verbatim>\<open>NaN\<close> is false, so \<^verbatim>\<open>NaN\<close>
  ends in the result 0.
\<close>

definition ttl_lib ::
  "host \<Rightarrow> client \<Rightarrow> string \<Rightarrow> string option \<Rightarrow> world \<Rightarrow> js_error + int" where
  "ttl_lib h c rowKey column w =
     (let columnName = str_or column (defaultColumn c);
          ttlRowKey = ttlRowKey_lib c rowKey columnName
      in case retrieve h (cfNameMetadata c) ttlRowKey (Some ''ttl'') False
                (store_get (tableMetadata w) ttlRowKey) of
           Inl error \<Rightarrow> Inl error
         | Inr ttl \<Rightarrow>
             (case retrieve h (cfName c) rowKey (Some columnName) True
                     (store_get (table w) rowKey) of
                Inl error \<Rightarrow> Inl error
              | Inr rowComplete \<Rightarrow>
                  if rowComplete = Null \<or> rowComplete = Undefined
                  then Inl (TypeError ''Cannot read property timestamp of null'')
                  else
                    (case (timestamp_of rowComplete, js_ToNumber h ttl) of
                       (Some rowTimestamp, Some n) \<Rightarrow>
                         let diff = of_int rowTimestamp / 1000 - of_int (now w - n * 1000);
                             diffSec = toFixed0 (diff / 1000)
                         in Inr (if diffSec \<ge> 0 then diffSec else 0)
                     | _ \<Rightarrow> Inr 0)))"

subsection \<open>The sweep (lib/BigtableClient.ts)\<close>

record metaCell =
  mc_rowKey :: string
  mc_value :: js_value
  mc_timestamp :: int

text \<open>
  The callback \<open>etl\<close> of \<^verbatim>\<open>deleteExpiredData\<close> on one scanned row \<open>(id, data)\<close>:
  \<^verbatim>\<open>result.data[cfNameMetadata].ttl\<close> throws when the row has no such family and is
  \<^verbatim>\<open>undefined\<close> when the family has no column \<open>ttl\<close>.
\<close>

definition etl :: "client \<Rightarrow> string \<times> row_data \<Rightarrow> js_error + metaCell option" where
  "etl c result =
     (case map_of (snd result) (cfNameMetadata c) of
        None \<Rightarrow> Inl (TypeError ''Cannot read property ttl of undefined'')
      | Some fd \<Rightarrow>
          (case map_of fd ''ttl'' of
             None \<Rightarrow> Inr None
           | Some ttl \<Rightarrow>
               (case js_index ttl 0 of
                  None \<Rightarrow> Inl (TypeError ''Cannot read property value of undefined'')
                | Some c0 \<Rightarrow>
                    Inr (Some \<lparr>mc_rowKey = fst result, mc_value = cell_value c0,
                               mc_timestamp = cell_timestamp c0\<rparr>))))"

text \<open>
  What becomes of a promise of the sweep. The store of the model reports no error, so
  none is rejected: it is fulfilled, or an exception is thrown inside a listener of the
  stream, where nothing catches it, and the promise never settles.
\<close>

datatype 'a outcome = Fulfilled 'a | Uncaught js_error

text \<open>
  \<^verbatim>\<open>scanCells(tableMetadata, [], etl)\<close>: the stream delivers every row of the table
  to the \<^verbatim>\<open>data\<close> listener, which applies \<open>etl\<close> to it, and \<^verbatim>\<open>end\<close> resolves
  the promise with the results. An exception of \<open>etl\<close> is thrown out of the listener:
  neither \<^verbatim>\<open>resolve\<close> nor \<^verbatim>\<open>reject\<close> is called for it.
\<close>

fun scanCells :: "client \<Rightarrow> table_rows \<Rightarrow> metaCell option list outcome" where
  "scanCells c [] = Fulfilled []"
| "scanCells c (result # rest) =
     (case etl c result of
        Inl error \<Rightarrow> Uncaught error
      | Inr m \<Rightarrow>
          (case scanCells c rest of
             Uncaught error \<Rightarrow> Uncaught error
           | Fulfilled ms \<Rightarrow> Fulfilled (m # ms)))"

text \<open>
  The second filter of \<^verbatim>\<open>deleteExpiredData\<close>:
  \<^verbatim>\<open>(metaCell.timestamp / 1000) < (Date.now() - (metaCell.value * 1000))\<close>, the cell
  timestamp in microseconds, \<open>t\<close> the value of \<^verbatim>\<open>Date.now()\<close>. Numbers are exact
  rationals here.
\<close>

definition expired :: "host \<Rightarrow> int \<Rightarrow> metaCell \<Rightarrow> bool" where
  "expired h t m =
     (case js_ToNumber h (mc_value m) of
        None \<Rightarrow> False
      | Some v \<Rightarrow> (of_int (mc_timestamp m) / 1000 :: rat) < of_int (t - v * 1000))"

definition filteredRowKeys :: "host \<Rightarrow> int \<Rightarrow> metaCell option list \<Rightarrow> string list" where
  "filteredRowKeys h t scanned =
     map mc_rowKey (filter (expired h t) [m. Some m \<leftarrow> scanned])"

text \<open>
  \<^verbatim>\<open>{key: rowKey.split("#")[0], column: rowKey.split(":")[1]}\<close>; the second piece is
  \<^verbatim>\<open>undefined\<close> when the key holds no colon.
\<close>

definition owner :: "string \<Rightarrow> string \<times> string option" where
  "owner rowKey =
     (case js_index (split CHR ''#'' rowKey) 0 of
        None \<Rightarrow> ([], js_index (split CHR '':'' rowKey) 1)
      | Some key \<Rightarrow> (key, js_index (split CHR '':'' rowKey) 1))"

text \<open>
  The three stretches of \<^verbatim>\<open>delete\<close> between its \<^verbatim>\<open>await\<close>s, for the sweep, which
  starts all its deletions before it awaits any of them.
\<close>

definition delete_dispatch :: "client \<Rightarrow> string \<times> string option \<Rightarrow> world \<Rightarrow> world" where
  "delete_dispatch c cell w =
     (if fst cell = [] then w
      else row_deleteCells Table (fst cell) (cfName c) (str_or (snd cell) (defaultColumn c)) w)"

definition delete_resume :: "client \<Rightarrow> string \<times> string option \<Rightarrow> world \<Rightarrow> world" where
  "delete_resume c cell w =
     (if fst cell = [] then w
      else
        let (rowExists, w1) = row_exists Table (fst cell) w
        in if \<not> rowExists
           then row_increment TableMetadata COUNTS (cfNameMetadata c) COUNTS (- 1) w1
           else w1)"

text \<open>
  \<^verbatim>\<open>deleteExpiredData()\<close>: the two \<^verbatim>\<open>map\<close>s dispatch a \<^verbatim>\<open>deleteCells\<close> per
  expired marker and then a row delete per expired marker; \<^verbatim>\<open>Promise.all\<close> then lets
  every \<^verbatim>\<open>delete\<close> run on to its existence check and decrement. While the scan
  does not settle, neither does the \<^verbatim>\<open>await\<close> on it.
\<close>

definition deleteExpiredData :: "host \<Rightarrow> client \<Rightarrow> world \<Rightarrow> world outcome" where
  "deleteExpiredData h c w =
     (case scanCells c (tableMetadata w) of
        Uncaught error \<Rightarrow> Uncaught error
      | Fulfilled scanned \<Rightarrow>
          let rowKeys = filteredRowKeys h (now w) scanned;
              cells = map owner rowKeys;
              w1 = fold (delete_dispatch c) cells w;
              w2 = fold (row_delete TableMetadata) rowKeys w1
          in Fulfilled (fold (delete_resume c) cells w2))"

text \<open>
  The live-row counter as the store holds it: 0 while the row \<open>counts\<close> does not
  exist, \<open>None\<close> when its cell holds no number.
\<close>

definition counter :: "client \<Rightarrow> world \<Rightarrow> int option" where
  "counter c w =
     (case map_of (tableMetadata w) COUNTS of
        None \<Rightarrow> Some 0
      | Some rd \<Rightarrow>
          (case map_of (family_of rd (cfNameMetadata c)) COUNTS of
             Some (x # xs) \<Rightarrow> (case cell_value x of Num n \<Rightarrow> Some n | _ \<Rightarrow> None)
           | _ \<Rightarrow> None))"

text \<open>The metadata rows that a log of requests deletes, in order.\<close>

fun metadata_deletes :: "call list \<Rightarrow> string list" where
  "metadata_deletes [] = []"
| "metadata_deletes (RowDelete TableMetadata k # cs) = k # metadata_deletes cs"
| "metadata_deletes (x # cs) = metadata_deletes cs"

subsection \<open>The timer of the sweep (lib/BigtableClient.ts)\<close>

text \<open>
  \<^verbatim>\<open>runJob\<close>, the timer callback and \<^verbatim>\<open>close\<close> as transitions of the scheduler's
  state: \<open>tov\<close> is the handle last stored by \<^verbatim>\<open>setTimeout\<close>, \<open>timers\<close> the handles
  that are armed, \<open>running\<close> the calls of \<^verbatim>\<open>deleteExpiredData\<close> that have not settled
  and \<open>cycles\<close> the number of cycles started so far.
\<close>

record job =
  tov :: "nat option"
  timers :: "nat list"
  running :: nat
  cycles :: nat
  fresh :: nat

definition runJob :: "job \<Rightarrow> job" where
  "runJob j = j\<lparr>tov := Some (fresh j), timers := timers j @ [fresh j], fresh := Suc (fresh j)\<rparr>"

text \<open>\<^verbatim>\<open>if (this.tov) clearTimeout(this.tov)\<close>: a handle that has fired is not armed.\<close>

definition close :: "job \<Rightarrow> job" where
  "close j = (case tov j of None \<Rightarrow> j | Some t \<Rightarrow> j\<lparr>timers := removeAll t (timers j)\<rparr>)"

text \<open>
  What the event loop can do next: run the callback of an armed timer, which starts a
  cycle, or settle a running cycle, whose \<^verbatim>\<open>then\<close> and \<^verbatim>\<open>catch\<close> both call
  \<^verbatim>\<open>runJob\<close>; and the owner of the client can call \<^verbatim>\<open>close\<close>.
\<close>

datatype event = TimerFires | CycleSettles | Close

fun step :: "event \<Rightarrow> job \<Rightarrow> job option" where
  "step TimerFires j =
     (case timers j of
        [] \<Rightarrow> None
      | t # ts \<Rightarrow> Some (j\<lparr>timers := ts, running := Suc (running j), cycles := Suc (cycles j)\<rparr>))"
| "step CycleSettles j =
     (if running j = 0 then None else Some (runJob (j\<lparr>running := running j - 1\<rparr>)))"
| "step Close j = Some (close j)"

fun run :: "event list \<Rightarrow> job \<Rightarrow> job option" where
  "run [] j = Some j"
| "run (e # es) j = (case step e j of None \<Rightarrow> None | Some j' \<Rightarrow> run es j')"

text \<open>The scheduler after \<^verbatim>\<open>init\<close>, which ends with \<^verbatim>\<open>this.runJob()\<close>.\<close>

definition init :: job where
  "init = runJob \<lparr>tov = None, timers = [], running = 0, cycles = 0, fresh = 0\<rparr>"

section \<open>A reference host\<close>

text \<open>
  The theorems below hold for every host. Where a concrete one is needed, to run the
  client on an input, it is the following: JSON text over null, booleans, integers,
  strings, arrays and objects, MurmurHash3 (x86, 32 bit) over the low bytes of the
  characters, and decimal integer literals as the numbers of strings. A number with a
  fraction or an exponent has no value in the integer model and is outside this fragment.
\<close>

subsection \<open>JSON text\<close>

definition hex_char :: "nat \<Rightarrow> char" where
  "hex_char d = ''0123456789abcdef'' ! d"

text \<open>QuoteJSONString.\<close>

definition quote_char :: "char \<Rightarrow> string" where
  "quote_char c =
     (if c = CHR 0x22 then [CHR 0x5C, CHR 0x22]
      else if c = CHR 0x5C then [CHR 0x5C, CHR 0x5C]
      else if c = CHR 0x08 then [CHR 0x5C, CHR ''b'']
      else if c = CHR 0x0C then [CHR 0x5C, CHR ''f'']
      else if c = CHR 0x0A then [CHR 0x5C, CHR ''n'']
      else if c = CHR 0x0D then [CHR 0x5C, CHR ''r'']
      else if c = CHR 0x09 then [CHR 0x5C, CHR ''t'']
      else if (of_char c :: nat) < 32
      then [CHR 0x5C, CHR ''u'', CHR ''0'', CHR ''0'',
            hex_char (of_char c div 16), hex_char (of_char c mod 16)]
      else [c])"

definition quote :: "string \<Rightarrow> string" where
  "quote s = CHR 0x22 # concat (map quote_char s) @ [CHR 0x22]"

text \<open>
  SerializeJSONProperty: in an array \<^verbatim>\<open>undefined\<close> prints as \<^verbatim>\<open>null\<close>, in an
  object a property that is \<^verbatim>\<open>undefined\<close> is left out.
\<close>

fun stringify :: "js_value \<Rightarrow> string" where
  "stringify Undefined = ''undefined''"
| "stringify Null = ''null''"
| "stringify (Bool b) = (if b then ''true'' else ''false'')"
| "stringify (Num n) = int_toString n"
| "stringify (Str s) = quote s"
| "stringify (Arr xs) =
     ''['' @ join_comma (map (\<lambda>x. if x = Undefined then ''null'' else stringify x) xs) @ '']''"
| "stringify (Obj kvs) =
     ''{'' @ join_comma (map (\<lambda>(k, v). quote k @ '':'' @ stringify v)
                           (filter (\<lambda>(k, v). v \<noteq> Undefined) kvs)) @ ''}''"

definition is_ws :: "char \<Rightarrow> bool" where
  "is_ws c = (c = CHR 0x20 \<or> c = CHR 0x09 \<or> c = CHR 0x0A \<or> c = CHR 0x0D)"

fun skip_ws :: "string \<Rightarrow> string" where
  "skip_ws [] = []"
| "skip_ws (c # cs) = (if is_ws c then skip_ws cs else c # cs)"

definition digit_val :: "char \<Rightarrow> nat option" where
  "digit_val c =
     (let n = of_char c :: nat in if 48 \<le> n \<and> n \<le> 57 then Some (n - 48) else None)"

definition hex_val :: "char \<Rightarrow> nat option" where
  "hex_val c =
     (let n = of_char c :: nat
      in if 48 \<le> n \<and> n \<le> 57 then Some (n - 48)
         else if 97 \<le> n \<and> n \<le> 102 then Some (n - 87)
         else if 65 \<le> n \<and> n \<le> 70 then Some (n - 55)
         else None)"

text \<open>A run of digits read from the left, with the value read so far.\<close>

fun parse_digits :: "nat \<Rightarrow> string \<Rightarrow> nat \<times> string" where
  "parse_digits acc [] = (acc, [])"
| "parse_digits acc (c # cs) =
     (case digit_val c of
        None \<Rightarrow> (acc, c # cs)
      | Some d \<Rightarrow> parse_digits (10 * acc + d) cs)"

text \<open>The integer part of a JSON number: \<open>0\<close>, or a digit from 1 to 9 and more digits.\<close>

definition parse_nat :: "string \<Rightarrow> (nat \<times> string) option" where
  "parse_nat s =
     (case s of
        [] \<Rightarrow> None
      | c # cs \<Rightarrow>
          (case digit_val c of
             None \<Rightarrow> None
           | Some d \<Rightarrow> if d = 0 then Some (0, cs) else Some (parse_digits d cs)))"

definition parse_int :: "string \<Rightarrow> (int \<times> string) option" where
  "parse_int s =
     (case s of
        [] \<Rightarrow> None
      | c # cs \<Rightarrow>
          if c = CHR ''-''
          then (case parse_nat cs of None \<Rightarrow> None | Some (n, r) \<Rightarrow> Some (- int n, r))
          else (case parse_nat s of None \<Rightarrow> None | Some (n, r) \<Rightarrow> Some (int n, r)))"

definition unescape :: "char \<Rightarrow> char option" where
  "unescape e =
     (if e = CHR 0x22 then Some (CHR 0x22)
      else if e = CHR 0x5C then Some (CHR 0x5C)
      else if e = CHR ''/'' then Some (CHR ''/'')
      else if e = CHR ''b'' then Some (CHR 0x08)
      else if e = CHR ''f'' then Some (CHR 0x0C)
      else if e = CHR ''n'' then Some (CHR 0x0A)
      else if e = CHR ''r'' then Some (CHR 0x0D)
      else if e = CHR ''t'' then Some (CHR 0x09)
      else None)"

text \<open>\<open>\uXXXX\<close> for a character of the model, whose code is below 256.\<close>

definition hex4 :: "char \<Rightarrow> char \<Rightarrow> char \<Rightarrow> char \<Rightarrow> char option" where
  "hex4 a b c d =
     (case (hex_val a, hex_val b, hex_val c, hex_val d) of
        (Some p, Some q, Some r, Some s) \<Rightarrow>
          if p = 0 \<and> q = 0 then Some (char_of (16 * r + s)) else None
      | _ \<Rightarrow> None)"

text \<open>The characters of a string after its opening quote, up to the closing quote.\<close>

fun parse_chars :: "string \<Rightarrow> (string \<times> string) option" where
  "parse_chars [] = None"
| "parse_chars (c # cs) =
     (if c = CHR 0x22 then Some ([], cs)
      else if c = CHR 0x5C then
        (case cs of
           [] \<Rightarrow> None
         | e # es \<Rightarrow>
             if e = CHR ''u'' then
               (case es of
                  a # b # c' # d # es' \<Rightarrow>
                    (case hex4 a b c' d of
                       None \<Rightarrow> None
                     | Some ch \<Rightarrow>
                         (case parse_chars es' of
                            None \<Rightarrow> None
                          | Some (str, r) \<Rightarrow> Some (ch # str, r)))
                | _ \<Rightarrow> None)
             else
               (case unescape e of
                  None \<Rightarrow> None
                | Some ch \<Rightarrow>
                    (case parse_chars es of
                       None \<Rightarrow> None
                     | Some (str, r) \<Rightarrow> Some (ch # str, r))))
      else if (of_char c :: nat) < 32 then None
      else (case parse_chars cs of
              None \<Rightarrow> None
            | Some (str, r) \<Rightarrow> Some (c # str, r)))"

text \<open>
  A property defined twice keeps its first place and takes the later value, as
  assignment to an existing property does.
\<close>

definition add_member ::
  "string \<Rightarrow> js_value \<Rightarrow> (string \<times> js_value) list \<Rightarrow> (string \<times> js_value) list" where
  "add_member k v kvs =
     (k, case map_of kvs k of None \<Rightarrow> v | Some v' \<Rightarrow> v') # AList.delete k kvs"

text \<open>
  Recursive descent over the JSON grammar. The first argument bounds the nesting depth of
  the calls; \<open>parse\<close> below starts with the length of the text, which no text exhausts.
\<close>

fun parse_value :: "nat \<Rightarrow> string \<Rightarrow> (js_value \<times> string) option"
  and parse_elements :: "nat \<Rightarrow> string \<Rightarrow> (js_value list \<times> string) option"
  and parse_members :: "nat \<Rightarrow> string \<Rightarrow> ((string \<times> js_value) list \<times> string) option"
where
  "parse_value 0 s = None"
| "parse_value (Suc n) s =
     (case skip_ws s of
        [] \<Rightarrow> None
      | c # cs \<Rightarrow>
          if c = CHR ''n'' then (if take 3 cs = ''ull'' then Some (Null, drop 3 cs) else None)
          else if c = CHR ''t'' then
            (if take 3 cs = ''rue'' then Some (Bool True, drop 3 cs) else None)
          else if c = CHR ''f'' then
            (if take 4 cs = ''alse'' then Some (Bool False, drop 4 cs) else None)
          else if c = CHR 0x22 then
            (case parse_chars cs of None \<Rightarrow> None | Some (str, r) \<Rightarrow> Some (Str str, r))
          else if c = CHR ''['' then
            (case skip_ws cs of
               [] \<Rightarrow> None
             | d # ds \<Rightarrow>
                 if d = CHR '']'' then Some (Arr [], ds)
                 else (case parse_elements n cs of
                         None \<Rightarrow> None
                       | Some (xs, r) \<Rightarrow> Some (Arr xs, r)))
          else if c = CHR ''{'' then
            (case skip_ws cs of
               [] \<Rightarrow> None
             | d # ds \<Rightarrow>
                 if d = CHR ''}'' then Some (Obj [], ds)
                 else (case parse_members n cs of
                         None \<Rightarrow> None
                       | Some (kvs, r) \<Rightarrow> Some (Obj kvs, r)))
          else (case parse_int (c # cs) of None \<Rightarrow> None | Some (i, r) \<Rightarrow> Some (Num i, r)))"
| "parse_elements 0 s = None"
| "parse_elements (Suc n) s =
     (case parse_value n s of
        None \<Rightarrow> None
      | Some (x, r) \<Rightarrow>
          (case skip_ws r of
             [] \<Rightarrow> None
           | c # r' \<Rightarrow>
               if c = CHR '','' then
                 (case parse_elements n r' of
                    None \<Rightarrow> None
                  | Some (xs, r'') \<Rightarrow> Some (x # xs, r''))
               else if c = CHR '']'' then Some ([x], r')
               else None))"
| "parse_members 0 s = None"
| "parse_members (Suc n) s =
     (case skip_ws s of
        [] \<Rightarrow> None
      | q # s1 \<Rightarrow>
          if q \<noteq> CHR 0x22 then None
          else
            (case parse_chars s1 of
               None \<Rightarrow> None
             | Some (k, s2) \<Rightarrow>
                 (case skip_ws s2 of
                    [] \<Rightarrow> None
                  | colon # s3 \<Rightarrow>
                      if colon \<noteq> CHR '':'' then None
                      else
                        (case parse_value n s3 of
                           None \<Rightarrow> None
                         | Some (v, r) \<Rightarrow>
                             (case skip_ws r of
                                [] \<Rightarrow> None
                              | c # r' \<Rightarrow>
                                  if c = CHR '','' then
                                    (case parse_members n r' of
                                       None \<Rightarrow> None
                                     | Some (kvs, r'') \<Rightarrow> Some (add_member k v kvs, r''))
                                  else if c = CHR ''}'' then Some ([(k, v)], r')
                                  else None)))))"

text \<open>
  \<^verbatim>\<open>JSON.parse(text)\<close> on the JSON texts of the values of the model: one value, nothing
  but white space after it. \<open>None\<close> stands for the \<^verbatim>\<open>SyntaxError\<close>; the JSON texts
  outside the model, which have \<open>None\<close> too, are set apart by \<open>modelled\<close> below.
\<close>

definition parse :: "string \<Rightarrow> js_value option" where
  "parse s =
     (case parse_value (Suc (length s)) s of
        None \<Rightarrow> None
      | Some (v, r) \<Rightarrow> if skip_ws r = [] then Some v else None)"

subsection \<open>The JSON grammar\<close>

text \<open>
  \<open>parse\<close> reads the JSON texts of the values of the model. The grammar of JSON has more:
  numbers with a fraction or an exponent, and \<^verbatim>\<open>\uXXXX\<close> for every code unit. On such
  a text \<^verbatim>\<open>JSON.parse\<close> returns a value that the model does not have, and \<open>parse\<close>
  returns \<open>None\<close> although nothing is thrown. The recogniser below follows the whole
  grammar (ECMA-404), so that the two cases of \<open>None\<close> can be told apart; each of its
  functions returns the rest of the text after what it has recognised.
\<close>

fun skip_digits :: "string \<Rightarrow> string" where
  "skip_digits [] = []"
| "skip_digits (c # cs) = (case digit_val c of None \<Rightarrow> c # cs | Some d \<Rightarrow> skip_digits cs)"

text \<open>One digit or more.\<close>

definition json_digits :: "string \<Rightarrow> string option" where
  "json_digits s =
     (case s of
        [] \<Rightarrow> None
      | c # cs \<Rightarrow> (case digit_val c of None \<Rightarrow> None | Some d \<Rightarrow> Some (skip_digits cs)))"

text \<open>The fraction, if there is one: a point and digits.\<close>

definition json_frac :: "string \<Rightarrow> string option" where
  "json_frac s =
     (case s of
        [] \<Rightarrow> Some []
      | c # cs \<Rightarrow> if c = CHR ''.'' then json_digits cs else Some (c # cs))"

text \<open>The exponent, if there is one: \<open>e\<close> or \<open>E\<close>, a sign or none, and digits.\<close>

definition json_exp :: "string \<Rightarrow> string option" where
  "json_exp s =
     (case s of
        [] \<Rightarrow> Some []
      | c # cs \<Rightarrow>
          if c = CHR ''e'' \<or> c = CHR ''E'' then
            (case cs of
               [] \<Rightarrow> None
             | d # ds \<Rightarrow>
                 if d = CHR ''+'' \<or> d = CHR ''-'' then json_digits ds else json_digits cs)
          else Some (c # cs))"

text \<open>A number: the integer part, which is what \<open>parse_int\<close> reads, a fraction, an exponent.\<close>

definition json_number :: "string \<Rightarrow> string option" where
  "json_number s =
     (case parse_int s of
        None \<Rightarrow> None
      | Some (i, r) \<Rightarrow> (case json_frac r of None \<Rightarrow> None | Some r' \<Rightarrow> json_exp r'))"

text \<open>The characters of a string after its opening quote: any four hex digits after \<^verbatim>\<open>\u\<close>.\<close>

fun json_chars :: "string \<Rightarrow> string option" where
  "json_chars [] = None"
| "json_chars (c # cs) =
     (if c = CHR 0x22 then Some cs
      else if c = CHR 0x5C then
        (case cs of
           [] \<Rightarrow> None
         | e # es \<Rightarrow>
             if e = CHR ''u'' then
               (case es of
                  a # b # c' # d # es' \<Rightarrow>
                    if hex_val a = None \<or> hex_val b = None \<or> hex_val c' = None
                       \<or> hex_val d = None
                    then None
                    else json_chars es'
                | _ \<Rightarrow> None)
             else (case unescape e of None \<Rightarrow> None | Some ch \<Rightarrow> json_chars es))
      else if (of_char c :: nat) < 32 then None
      else json_chars cs)"

fun json_value :: "nat \<Rightarrow> string \<Rightarrow> string option"
  and json_elements :: "nat \<Rightarrow> string \<Rightarrow> string option"
  and json_members :: "nat \<Rightarrow> string \<Rightarrow> string option"
where
  "json_value 0 s = None"
| "json_value (Suc n) s =
     (case skip_ws s of
        [] \<Rightarrow> None
      | c # cs \<Rightarrow>
          if c = CHR ''n'' then (if take 3 cs = ''ull'' then Some (drop 3 cs) else None)
          else if c = CHR ''t'' then (if take 3 cs = ''rue'' then Some (drop 3 cs) else None)
          else if c = CHR ''f'' then (if take 4 cs = ''alse'' then Some (drop 4 cs) else None)
          else if c = CHR 0x22 then json_chars cs
          else if c = CHR ''['' then
            (case skip_ws cs of
               [] \<Rightarrow> None
             | d # ds \<Rightarrow> if d = CHR '']'' then Some ds else json_elements n cs)
          else if c = CHR ''{'' then
            (case skip_ws cs of
               [] \<Rightarrow> None
             | d # ds \<Rightarrow> if d = CHR ''}'' then Some ds else json_members n cs)
          else json_number (c # cs))"
| "json_elements 0 s = None"
| "json_elements (Suc n) s =
     (case json_value n s of
        None \<Rightarrow> None
      | Some r \<Rightarrow>
          (case skip_ws r of
             [] \<Rightarrow> None
           | c # r' \<Rightarrow>
               if c = CHR '','' then json_elements n r'
               else if c = CHR '']'' then Some r'
               else None))"
| "json_members 0 s = None"
| "json_members (Suc n) s =
     (case skip_ws s of
        [] \<Rightarrow> None
      | q # s1 \<Rightarrow>
          if q \<noteq> CHR 0x22 then None
          else
            (case json_chars s1 of
               None \<Rightarrow> None
             | Some s2 \<Rightarrow>
                 (case skip_ws s2 of
                    [] \<Rightarrow> None
                  | colon # s3 \<Rightarrow>
                      if colon \<noteq> CHR '':'' then None
                      else
                        (case json_value n s3 of
                           None \<Rightarrow> None
                         | Some r \<Rightarrow>
                             (case skip_ws r of
                                [] \<Rightarrow> None
                              | c # r' \<Rightarrow>
                                  if c = CHR '','' then json_members n r'
                                  else if c = CHR ''}'' then Some r'
                                  else None)))))"

text \<open>A JSON text: one value, nothing but white space after it.\<close>

definition json_text :: "string \<Rightarrow> bool" where
  "json_text s =
     (case json_value (Suc (length s)) s of None \<Rightarrow> False | Some r \<Rightarrow> skip_ws r = [])"

text \<open>The rest of a text goes on with neither a fraction nor an exponent.\<close>

definition number_ends :: "string \<Rightarrow> bool" where
  "number_ends r =
     (case r of
        [] \<Rightarrow> True
      | c # cs \<Rightarrow> c \<noteq> CHR ''.'' \<and> c \<noteq> CHR ''e'' \<and> c \<noteq> CHR ''E'')"

text \<open>
  The texts on which \<open>parse\<close> is \<^verbatim>\<open>JSON.parse\<close>: those that are not JSON, on which both
  fail, and those that \<open>parse\<close> reads.
\<close>

definition modelled :: "string \<Rightarrow> bool" where
  "modelled s = (\<not> json_text s \<or> parse s \<noteq> None)"

subsection \<open>The values of JSON text\<close>

text \<open>The rest of a text does not go on with a digit.\<close>

definition no_digit :: "string \<Rightarrow> bool" where
  "no_digit r = (case r of [] \<Rightarrow> True | c # cs \<Rightarrow> digit_val c = None)"

text \<open>
  The values JSON text denotes: no \<^verbatim>\<open>undefined\<close> inside, and the properties of an
  object named apart.
\<close>

fun jsonable :: "js_value \<Rightarrow> bool" where
  "jsonable Undefined = False"
| "jsonable (Arr xs) = (\<forall>x \<in> set xs. jsonable x)"
| "jsonable (Obj kvs) = (distinct (map fst kvs) \<and> (\<forall>kv \<in> set kvs. jsonable (snd kv)))"
| "jsonable v = True"

text \<open>A bound on the depth of the calls that read a value back.\<close>

fun weight :: "js_value \<Rightarrow> nat" where
  "weight (Arr xs) = Suc (sum_list (map (\<lambda>x. Suc (weight x)) xs))"
| "weight (Obj kvs) = Suc (sum_list (map (\<lambda>kv. Suc (weight (snd kv))) kvs))"
| "weight v = 1"

text \<open>The characters a JSON value starts with, and those that may follow one.\<close>

definition starts_value :: "char \<Rightarrow> bool" where
  "starts_value c \<longleftrightarrow> c \<in> set ''ntf[{-0123456789'' \<or> c = CHR 0x22"

definition ends_value :: "string \<Rightarrow> bool" where
  "ends_value r = (case r of [] \<Rightarrow> True | c # cs \<Rightarrow> c = CHR '','' \<or> c = CHR '']'' \<or> c = CHR ''}'')"

text \<open>One member of an object as \<open>stringify\<close> prints it.\<close>

definition member_text :: "string \<times> js_value \<Rightarrow> string" where
  "member_text kv = quote (fst kv) @ '':'' @ stringify (snd kv)"

subsection \<open>MurmurHash3\<close>

definition rotl32 :: "32 word \<Rightarrow> nat \<Rightarrow> 32 word" where
  "rotl32 x r = push_bit r x OR drop_bit (32 - r) x"

definition mix_k1 :: "32 word \<Rightarrow> 32 word" where
  "mix_k1 k1 = rotl32 (k1 * 0xcc9e2d51) 15 * 0x1b873593"

definition byte :: "char \<Rightarrow> 32 word" where
  "byte c = of_char c"

fun murmur_blocks :: "32 word \<Rightarrow> string \<Rightarrow> 32 word" where
  "murmur_blocks h1 (a # b # c # d # rest) =
     (let k1 = byte a OR push_bit 8 (byte b) OR push_bit 16 (byte c) OR push_bit 24 (byte d);
          h2 = rotl32 (h1 XOR mix_k1 k1) 13
      in murmur_blocks (h2 * 5 + 0xe6546b64) rest)"
| "murmur_blocks h1 [a, b, c] =
     h1 XOR mix_k1 (byte a XOR push_bit 8 (byte b) XOR push_bit 16 (byte c))"
| "murmur_blocks h1 [a, b] = h1 XOR mix_k1 (byte a XOR push_bit 8 (byte b))"
| "murmur_blocks h1 [a] = h1 XOR mix_k1 (byte a)"
| "murmur_blocks h1 [] = h1"

definition fmix32 :: "32 word \<Rightarrow> 32 word" where
  "fmix32 h =
     (let h1 = h XOR drop_bit 16 h;
          h2 = h1 * 0x85ebca6b;
          h3 = h2 XOR drop_bit 13 h2;
          h4 = h3 * 0xc2b2ae35
      in h4 XOR drop_bit 16 h4)"

definition murmur3_32 :: "string \<Rightarrow> int \<Rightarrow> 32 word" where
  "murmur3_32 key seed = fmix32 (murmur_blocks (word_of_int seed) key XOR of_nat (length key))"

subsection \<open>The host\<close>

definition node :: host where
  "node = \<lparr>JSON_stringify = stringify, JSON_parse = parse, murmur_v3 = murmur3_32,
           StringToNumber = (\<lambda>s. if s = [] then Some 0
                                  else case parse_int s of
                                         Some (i, []) \<Rightarrow> Some i
                                       | _ \<Rightarrow> None)\<rparr>"

section \<open>Example inputs\<close>

text \<open>
  The constructor and \<^verbatim>\<open>init\<close> of lib/BigtableClient.ts: the interval is taken as
  given and the family name comes from the configuration. That client has no shard
  count and no seed; the two fields are unused by its methods.
\<close>

definition BigtableClient_lib :: "string \<Rightarrow> string option \<Rightarrow> int \<Rightarrow> client" where
  "BigtableClient_lib columnFamily dflt interval =
     \<lparr>cfName = columnFamily,
      cfNameMetadata = columnFamily @ ''_metadata'',
      defaultColumn = (case dflt of None \<Rightarrow> DEFAULT_COLUMN | Some d \<Rightarrow> d),
      intervalInMs = interval,
      minJitterMs = 0,
      maxJitterMs = 0,
      clusterCount = 0,
      murmurSeed = 0\<rparr>"

text \<open>A client built with every default, one of lib/BigtableClient.ts, and empty tables.\<close>

definition client0 :: client where
  "client0 = BigtableClient \<lparr>cfg_columnFamily = None, cfg_defaultColumn = None\<rparr>
               None None None None None"

definition lib0 :: client where
  "lib0 = BigtableClient_lib ''cf'' None 5000"

definition world0 :: world where
  "world0 = \<lparr>table = [], tableMetadata = [], now = 1000, calls = []\<rparr>"

text \<open>The tables after \<^verbatim>\<open>set("user1", "alice", undefined, "name")\<close>.\<close>

definition world1 :: world where
  "world1 = set_part_000 node client0 ''user1'' (Str ''alice'') None (Some ''name'') world0"

text \<open>
  The tables after \<^verbatim>\<open>set("user1", "alice", 5, "name")\<close> of lib/BigtableClient.ts at
  time 1000, looked at six seconds later, and the marker that call wrote.
\<close>

definition world2 :: world where
  "world2 = (set_lib node lib0 ''user1'' (Str ''alice'') (Some 5) (Some ''name'') world0)
              \<lparr>now := 7000, calls := []\<rparr>"

definition marker0 :: metaCell where
  "marker0 = \<lparr>mc_rowKey = ''user1#cf:name'', mc_value = Num 5, mc_timestamp = 1000000\<rparr>"


section \<open>Theorems\<close>

subsection \<open>The world under the requests\<close>

lemma dispatch_simps [simp]:
  "table (dispatch x w) = table w"
  "tableMetadata (dispatch x w) = tableMetadata w"
  "now (dispatch x w) = now w"
  "calls (dispatch x w) = calls w @ [x]"
  by (simp_all add: dispatch_def)

lemma rows_of_simps [simp]:
  "rows_of w Table = table w"
  "rows_of w TableMetadata = tableMetadata w"
  by (simp_all add: rows_of_def)

lemma with_rows_simps [simp]:
  "table (with_rows Table rows w) = rows"
  "table (with_rows TableMetadata rows w) = table w"
  "tableMetadata (with_rows TableMetadata rows w) = rows"
  "tableMetadata (with_rows Table rows w) = tableMetadata w"
  "now (with_rows tid rows w) = now w"
  "calls (with_rows tid rows w) = calls w"
  by (simp_all add: with_rows_def split: table_id.splits)

lemma table_insert_simps [simp]:
  "table (table_insert TableMetadata k f d w) = table w"
  "tableMetadata (table_insert Table k f d w) = tableMetadata w"
  "table (table_insert Table k f d w) = store_insert (table w) k f d (now w * 1000)"
  "tableMetadata (table_insert TableMetadata k f d w)
     = store_insert (tableMetadata w) k f d (now w * 1000)"
  "now (table_insert tid k f d w) = now w"
  "calls (table_insert tid k f d w) = calls w @ [TableInsert tid k f d]"
  by (simp_all add: table_insert_def)

lemma row_increment_simps [simp]:
  "table (row_increment TableMetadata k f col d w) = table w"
  "tableMetadata (row_increment Table k f col d w) = tableMetadata w"
  "table (row_increment Table k f col d w)
     = store_increment (table w) k f col d (now w * 1000)"
  "tableMetadata (row_increment TableMetadata k f col d w)
     = store_increment (tableMetadata w) k f col d (now w * 1000)"
  "now (row_increment tid k f col d w) = now w"
  "calls (row_increment tid k f col d w) = calls w @ [RowIncrement tid k f col d]"
  by (simp_all add: row_increment_def)

lemma row_deleteCells_simps [simp]:
  "table (row_deleteCells TableMetadata k f col w) = table w"
  "tableMetadata (row_deleteCells Table k f col w) = tableMetadata w"
  "table (row_deleteCells Table k f col w) = store_deleteCells (table w) k f col"
  "now (row_deleteCells tid k f col w) = now w"
  "calls (row_deleteCells tid k f col w) = calls w @ [RowDeleteCells tid k f col]"
  by (simp_all add: row_deleteCells_def)

lemma row_delete_simps [simp]:
  "table (row_delete TableMetadata k w) = table w"
  "tableMetadata (row_delete Table k w) = tableMetadata w"
  "table (row_delete Table k w) = store_delete (table w) k"
  "tableMetadata (row_delete TableMetadata k w) = store_delete (tableMetadata w) k"
  "now (row_delete tid k w) = now w"
  "calls (row_delete tid k w) = calls w @ [RowDelete tid k]"
  by (simp_all add: row_delete_def)

lemma row_exists_simps [simp]:
  "fst (row_exists tid k w) = store_exists (rows_of w tid) k"
  "table (snd (row_exists tid k w)) = table w"
  "tableMetadata (snd (row_exists tid k w)) = tableMetadata w"
  "now (snd (row_exists tid k w)) = now w"
  "calls (snd (row_exists tid k w)) = calls w @ [RowExists tid k]"
  by (simp_all add: row_exists_def)

lemma table_insert_cells_meta [simp]:
  "table (insert_cells h TableMetadata cf k d w) = table w"
  by (simp add: insert_cells_def)

lemma table_marker_write [simp]: "table (marker_write h c k cols ttl w) = table w"
  by (simp add: marker_write_def Let_def split: option.splits)

lemma table_fold_insert_meta:
  "table (fold (\<lambda>x. insert_cells h TableMetadata cf (f x) (g x)) xs w) = table w"
  by (induction xs arbitrary: w) simp_all

lemma table_marker_write_lib [simp]: "table (marker_write_lib h c k cols ttl w) = table w"
  by (simp add: marker_write_lib_def table_fold_insert_meta split: option.splits)

lemma table_count_new_row [simp]: "table (count_new_row c k w) = table w"
  by (simp add: count_new_row_def split_beta)

lemma now_insert_cells [simp]: "now (insert_cells h tid cf k d w) = now w"
  by (simp add: insert_cells_def)

lemma now_marker_write [simp]: "now (marker_write h c k cols ttl w) = now w"
  by (simp add: marker_write_def Let_def split: option.splits)

lemma now_count_new_row [simp]: "now (count_new_row c k w) = now w"
  by (simp add: count_new_row_def split_beta)

lemma calls_insert_cells:
  "calls (insert_cells h tid cf k d w)
     = calls w @ (if k = [] then [] else [TableInsert tid k cf (cleanedData (JSON_stringify h) d)])"
  by (simp add: insert_cells_def)

lemma tableMetadata_insert_cells [simp]:
  "tableMetadata (insert_cells h Table cf k d w) = tableMetadata w"
  by (simp add: insert_cells_def)

lemma calls_count_new_row:
  "calls (count_new_row c k w)
     = calls w @ [RowExists Table k]
       @ (if store_exists (table w) k then []
          else [RowIncrement TableMetadata COUNTS (cfNameMetadata c) COUNTS 1])"
  by (simp add: count_new_row_def split_beta)

lemma tableMetadata_count_new_row:
  "tableMetadata (count_new_row c k w)
     = (if store_exists (table w) k then tableMetadata w
        else store_increment (tableMetadata w) COUNTS (cfNameMetadata c) COUNTS 1 (now w * 1000))"
  by (simp add: count_new_row_def split_beta)

lemma cleanedData_single [simp]: "cleanedData S [(col, v)] = [(col, cleanedValue S v)]"
  by (simp add: cleanedData_def)

lemma store_get_after_insert:
  "store_get (store_insert rows k fam [(col, v)] ts) k (Some (fam, col)) =
     Inr (Some [[(fam, [(col, [\<lparr>cell_value = v, cell_timestamp = ts\<rparr>])])]])"
  by (simp add: store_get_def store_insert_def update_conv' put_cell_def family_of_def)

lemma retrieve_single_cell:
  assumes "rowKey \<noteq> []" "col \<noteq> []"
    and "row_get (Some (cf, col)) = Inr (Some [[(cf, [(col, [x])])]])"
  shows "retrieve h cf rowKey (Some col) False row_get = Inr (cell_value x)"
  using assms by (simp add: retrieve_def Let_def singleResult_def js_index_def)

lemma get_after_set_part_000:
  assumes "rowKey \<noteq> []" "defaultColumn c \<noteq> []"
  shows "get h c rowKey column (set_part_000 h c rowKey v ttl column w)
           = Inr (cleanedValue (JSON_stringify h) v)"
proof -
  have col: "str_or column (defaultColumn c) \<noteq> []"
    using assms(2) by (simp add: str_or_def split: option.splits)
  show ?thesis
    using assms(1) col
    by (simp add: get_def set_part_000_def Let_def insert_cells_def
        store_get_after_insert retrieve_single_cell)
qed

lemma get_after_set_lib:
  assumes "rowKey \<noteq> []" "defaultColumn c \<noteq> []"
  shows "get h c rowKey column (set_lib h c rowKey v ttl column w)
           = Inr (cleanedValue (JSON_stringify h) v)"
proof -
  have col: "str_or column (defaultColumn c) \<noteq> []"
    using assms(2) by (simp add: str_or_def split: option.splits)
  show ?thesis
    using assms(1) col
    by (simp add: get_def set_lib_def Let_def insert_cells_def
        store_get_after_insert retrieve_single_cell)
qed

subsection \<open>The example inputs\<close>

lemma client0_fields:
  "cfName client0 = ''default''"
  "cfNameMetadata client0 = ''default_metadata''"
  "defaultColumn client0 = ''value''"
  "clusterCount client0 = 3"
  "murmurSeed client0 = 1"
  by (simp_all add: client0_def BigtableClient_def DEFAULT_COLUMN_FAMILY_def DEFAULT_COLUMN_def
      nat_or_def int_or_def DEFAULT_CLUSTER_COUNT_def DEFAULT_MURMUR_SEED_def)

lemma lib0_fields:
  "cfName lib0 = ''cf''"
  "cfNameMetadata lib0 = ''cf_metadata''"
  "defaultColumn lib0 = ''value''"
  by (simp_all add: lib0_def BigtableClient_lib_def DEFAULT_COLUMN_def)

lemma node_fields:
  "JSON_stringify node = stringify"
  "JSON_parse node = parse"
  "murmur_v3 node = murmur3_32"
  by (simp_all add: node_def)

lemma world0_fields:
  "table world0 = []"
  "tableMetadata world0 = []"
  "now world0 = 1000"
  "calls world0 = []"
  by (simp_all add: world0_def)

lemma world1_table:
  "table world1 =
     [(''user1'', [(''default'',
        [(''name'', [\<lparr>cell_value = Str ''alice'', cell_timestamp = 1000000\<rparr>])])])]"
  by (simp add: world1_def set_part_000_def client0_fields world0_fields Let_def str_or_def
      insert_cells_def store_insert_def row_of_def put_cell_def family_of_def
      cleanedValue_def sanitizedValue_def js_or_def)

lemma world2_metadata:
  "tableMetadata world2 =
     [(''user1#cf:name'', [(''cf_metadata'',
         [(''ttl'', [\<lparr>cell_value = Num 5, cell_timestamp = 1000000\<rparr>])])])]"
  by (simp add: world2_def set_lib_def lib0_fields world0_fields Let_def str_or_def
      marker_write_lib_def truthy_ttl_def ttlRowKey_lib_def tableMetadata_count_new_row
      insert_cells_def store_insert_def store_exists_def row_of_def put_cell_def family_of_def
      cleanedValue_def sanitizedValue_def js_or_def update_conv')

lemma world2_fields: "now world2 = 7000" "calls world2 = []"
  by (simp_all add: world2_def)

lemma world2_scan: "scanCells lib0 (tableMetadata world2) = Fulfilled [Some marker0]"
  by (simp add: world2_metadata etl_def lib0_fields js_index_def marker0_def)

lemma int_toString_6000: "int_toString 6000 = ''6000''"
  by (simp add: int_toString_def nat_toString.simps digit_char_def)

lemma murmur_6000: "murmur3_32 ''6000'' 1 = 655848737"
  by (simp add: murmur3_32_def fmix32_def mix_k1_def rotl32_def byte_def)

subsection \<open>Falsy values are stored as the empty string\<close>

text \<open>
  C10. \<^verbatim>\<open>insert\<close> writes \<^verbatim>\<open>sanitizedValue || ""\<close>: each of \<open>0\<close>, \<open>false\<close>,
  the empty string, \<open>null\<close> and \<open>undefined\<close> is stored as the empty string, and a
  cell set to one of them (by either version of \<^verbatim>\<open>set\<close>) is read back by
  \<^verbatim>\<open>get\<close> as the empty string, not as the value that was set.
\<close>

theorem insert_collapses_falsy:
  assumes "v \<in> {Num 0, Bool False, Str [], Null, Undefined}"
    and "rowKey \<noteq> []" and "defaultColumn c \<noteq> []"
  shows "cleanedValue (JSON_stringify h) v = Str []
       \<and> get h c rowKey column (set_part_000 h c rowKey v ttl column w) = Inr (Str [])
       \<and> get h c rowKey column (set_lib h c rowKey v ttl column w) = Inr (Str [])"
proof -
  have "cleanedValue (JSON_stringify h) v = Str []"
    using assms(1) by (auto simp add: cleanedValue_def sanitizedValue_def js_or_def)
  then show ?thesis
    using assms(2,3) by (simp add: get_after_set_part_000 get_after_set_lib)
qed

theorem insert_collapses_falsy_witness:
  "Num 0 \<in> {Num 0, Bool False, Str [], Null, Undefined}
   \<and> ''user:1'' \<noteq> [] \<and> defaultColumn client0 \<noteq> []
   \<and> cleanedValue (JSON_stringify node) (Num 0) = Str []
   \<and> get node client0 ''user:1'' None
        (set_part_000 node client0 ''user:1'' (Num 0) None None world0) = Inr (Str [])"
  using insert_collapses_falsy [where v = "Num 0" and rowKey = "''user:1''" and c = client0
      and h = node and column = None and ttl = None and w = world0]
  by (simp add: client0_fields)

subsection \<open>The marker key\<close>

lemma clusterCount_constructor: "0 < clusterCount (BigtableClient cfg i a b n s)"
  by (simp add: BigtableClient_def nat_or_def DEFAULT_CLUSTER_COUNT_def Let_def
      split: option.splits)

text \<open>
  C2. For every TTL, time, seed and positive shard count, \<^verbatim>\<open>getTTLRowKey\<close> returns
  \<open>"ttl#" + shard + "#" + expiryEpochMs\<close> with \<open>expiryEpochMs = now + ttl * 1000\<close>
  and \<open>shard\<close> the hash of the decimal form of \<open>expiryEpochMs\<close> under the seed,
  modulo the shard count: a function of the expiry time, the seed and the count alone,
  and below the count. The constructor never leaves the count at zero
  (\<open>clusterCount_constructor\<close>).
\<close>

theorem getTTLRowKey_encodes:
  assumes "0 < clusterCount c"
  shows "let expiryEpochMs = t + 1000 * ttl;
             shard = unat (murmur_v3 h (int_toString expiryEpochMs) (murmurSeed c))
                       mod clusterCount c
         in getTTLRowKey h c t ttl
              = ''ttl#'' @ nat_toString shard @ ''#'' @ int_toString expiryEpochMs
            \<and> shard < clusterCount c"
  using assms by (simp add: getTTLRowKey_def salt_def Let_def)

theorem getTTLRowKey_encodes_witness:
  "0 < clusterCount client0 \<and> getTTLRowKey node client0 1000 5 = ''ttl#2#6000''"
  using getTTLRowKey_encodes [where c = client0 and t = 1000 and ttl = 5 and h = node]
  by (simp add: client0_fields node_fields int_toString_6000 murmur_6000
      nat_toString.simps digit_char_def)

subsection \<open>Decomposition of a marker key (lib/BigtableClient.ts)\<close>

lemma split_no_delim: "d \<notin> set s \<Longrightarrow> split d s = [s]"
  by (induction s) auto

lemma split_at_delim: "d \<notin> set a \<Longrightarrow> split d (a @ d # b) = a # split d b"
  by (induction a) auto

text \<open>
  C8. \<^verbatim>\<open>set\<close> writes the marker of \<open>(rowKey, columnName)\<close> under the key
  \<open>rowKey#cfName:columnName\<close>, and the sweep takes it apart with
  \<^verbatim>\<open>split("#")[0]\<close> and \<^verbatim>\<open>split(":")[1]\<close>. For a row key and a column name
  without \<open>#\<close> and \<open>:\<close> the two pieces are that row key and that column name. The
  family name stands between them; the store admits no colon in a family name.
\<close>

theorem owner_inverts_marker_key:
  assumes "CHR ''#'' \<notin> set rowKey" and "CHR '':'' \<notin> set rowKey"
    and "CHR ''#'' \<notin> set columnName" and "CHR '':'' \<notin> set columnName"
    and "CHR '':'' \<notin> set (cfName c)"
  shows "owner (ttlRowKey_lib c rowKey columnName) = (rowKey, Some columnName)"
proof -
  have 1: "split CHR ''#'' (ttlRowKey_lib c rowKey columnName)
             = rowKey # split CHR ''#'' (cfName c @ '':'' @ columnName)"
    using assms(1) by (simp add: ttlRowKey_lib_def split_at_delim)
  have "CHR '':'' \<notin> set (rowKey @ ''#'' @ cfName c)"
    using assms(2,5) by simp
  then have "split CHR '':'' ((rowKey @ ''#'' @ cfName c) @ CHR '':'' # columnName)
             = (rowKey @ ''#'' @ cfName c) # split CHR '':'' columnName"
    by (rule split_at_delim)
  then have 2: "split CHR '':'' (ttlRowKey_lib c rowKey columnName)
             = [rowKey @ ''#'' @ cfName c, columnName]"
    using assms(4) by (simp add: ttlRowKey_lib_def split_no_delim)
  show ?thesis
    by (simp add: owner_def 1 2 js_index_def)
qed

theorem owner_inverts_marker_key_witness:
  "CHR ''#'' \<notin> set ''user1'' \<and> CHR '':'' \<notin> set ''user1''
   \<and> CHR ''#'' \<notin> set ''name'' \<and> CHR '':'' \<notin> set ''name''
   \<and> CHR '':'' \<notin> set (cfName lib0)
   \<and> ttlRowKey_lib lib0 ''user1'' ''name'' = ''user1#cf:name''
   \<and> owner ''user1#cf:name'' = (''user1'', Some ''name'')"
  using owner_inverts_marker_key
    [where rowKey = "''user1''" and columnName = "''name''" and c = lib0]
  by (simp add: lib0_fields ttlRowKey_lib_def)

subsection \<open>Reading a column the row does not hold\<close>

lemma retrieve_missing_cell:
  assumes "rowKey \<noteq> []" "columnName \<noteq> []"
    and "row_get (Some (cf, columnName)) = Inr (Some rowGet)"
    and "singleResult rowGet cf columnName = None"
  shows "retrieve h cf rowKey (Some columnName) False row_get
           = Inl (TypeError ''Cannot read property value of undefined'')"
  using assms by (simp add: retrieve_def Let_def)

lemma store_get_missing_cell:
  assumes "map_of rows rowKey = Some rd" "map_of (family_of rd cf) col = None"
  shows "store_get rows rowKey (Some (cf, col)) = Inr None"
  using assms by (simp add: store_get_def)

lemma retrieve_null:
  assumes "rowKey \<noteq> []"
    and "row_get (map_option (Pair cf) (if col = [] then None else Some col)) = Inr None"
  shows "retrieve h cf rowKey (Some col) complete' row_get = Inr Null"
  using assms by (simp add: retrieve_def Let_def)

text \<open>
  C9, as amended. When the row exists in the primary table and holds no cell under the
  requested column, \<^verbatim>\<open>retrieve\<close> without the \<open>complete\<close> flag, and so \<^verbatim>\<open>get\<close>,
  resolves to \<^verbatim>\<open>null\<close>: the store answers the read with \<^verbatim>\<open>null\<close>, and
  \<^verbatim>\<open>if (!rowGet) return null\<close> returns before any cell is looked at. A store that
  rejects such a read with its unknown-row error gets \<^verbatim>\<open>null\<close> as well, from the
  \<^verbatim>\<open>catch\<close>. The \<^verbatim>\<open>TypeError\<close> of reading \<open>value\<close> of an undefined cell needs a
  \<^verbatim>\<open>row.get\<close> that resolves with row data in which the column is missing.
\<close>

theorem get_missing_cell_null:
  assumes "rowKey \<noteq> []" and "columnName \<noteq> []"
    and "map_of (table w) rowKey = Some rd"
    and "map_of (family_of rd (cfName c)) columnName = None"
  shows "retrieve h (cfName c) rowKey (Some columnName) False (store_get (table w) rowKey)
           = Inr Null
       \<and> get h c rowKey (Some columnName) w = Inr Null
       \<and> retrieve h (cfName c) rowKey (Some columnName) False
            (\<lambda>identifier. Inl (Error (''Unknown row: '' @ rowKey @ ''.''))) = Inr Null
       \<and> (\<forall>rowGet. singleResult rowGet (cfName c) columnName = None \<longrightarrow>
             retrieve h (cfName c) rowKey (Some columnName) False
               (\<lambda>identifier. Inr (Some rowGet))
               = Inl (TypeError ''Cannot read property value of undefined''))"
proof -
  have 1: "retrieve h (cfName c) rowKey (Some columnName) False (store_get (table w) rowKey)
      = Inr Null"
    using assms by (simp add: retrieve_null store_get_missing_cell)
  have 2: "get h c rowKey (Some columnName) w = Inr Null"
    using assms 1 by (simp add: get_def Let_def str_or_def)
  have 3: "retrieve h (cfName c) rowKey (Some columnName) False
      (\<lambda>identifier. Inl (Error (''Unknown row: '' @ rowKey @ ''.''))) = Inr Null"
    using assms(1) by (simp add: retrieve_def Let_def startsWith_def)
  have 4: "retrieve h (cfName c) rowKey (Some columnName) False (\<lambda>identifier. Inr (Some rowGet))
      = Inl (TypeError ''Cannot read property value of undefined'')"
    if "singleResult rowGet (cfName c) columnName = None" for rowGet
    using assms(1,2) that by (simp add: retrieve_missing_cell)
  show ?thesis
    using 1 2 3 4 by blast
qed

theorem get_missing_cell_null_witness:
  "''user1'' \<noteq> [] \<and> ''email'' \<noteq> []
   \<and> map_of (table world1) ''user1''
       = Some [(''default'',
                [(''name'', [\<lparr>cell_value = Str ''alice'', cell_timestamp = 1000000\<rparr>])])]
   \<and> retrieve node ''default'' ''user1'' (Some ''email'') False
        (store_get (table world1) ''user1'') = Inr Null
   \<and> get node client0 ''user1'' (Some ''email'') world1 = Inr Null
   \<and> retrieve node ''default'' ''user1'' (Some ''email'') False
        (\<lambda>identifier. Inr (Some [[]]))
       = Inl (TypeError ''Cannot read property value of undefined'')"
  using get_missing_cell_null [where rowKey = "''user1''" and columnName = "''email''"
      and w = world1 and c = client0 and h = node
      and rd = "[(''default'',
                  [(''name'', [\<lparr>cell_value = Str ''alice'', cell_timestamp = 1000000\<rparr>])])]"]
  by (simp add: world1_table client0_fields family_of_def singleResult_def js_index_def)

text \<open>
  The claim as stated fails on the row \<open>user1\<close>, which exists and holds the column
  \<open>name\<close> only: \<^verbatim>\<open>get("user1", "email")\<close> resolves to \<^verbatim>\<open>null\<close> and throws nothing.
\<close>

theorem get_missing_cell_resolves:
  "store_exists (table world1) ''user1''
   \<and> get node client0 ''user1'' (Some ''name'') world1 = Inr (Str ''alice'')
   \<and> store_get (table world1) ''user1'' (Some (''default'', ''email'')) = Inr None
   \<and> get node client0 ''user1'' (Some ''email'') world1 = Inr Null"
  by (simp add: world1_table client0_fields family_of_def store_exists_def get_def Let_def
      str_or_def retrieve_def store_get_def singleResult_def js_index_def)

subsection \<open>Closing the sweep (lib/BigtableClient.ts)\<close>

lemma close_idempotent: "close (close j) = close j"
  by (simp add: close_def split: option.splits)

lemma close_cancels: "tov j = Some t \<Longrightarrow> t \<notin> set (timers (close j))"
  by (simp add: close_def)

lemma idle_closed_step:
  assumes "timers j = []" "running j = 0" "step e j = Some j'"
  shows "timers j' = [] \<and> running j' = 0 \<and> cycles j' = cycles j"
  using assms by (cases e) (auto simp add: close_def split: option.splits)

lemma idle_closed_run:
  assumes "timers j = []" "running j = 0" "run es j = Some j'"
  shows "cycles j' = cycles j"
  using assms
proof (induction es arbitrary: j)
  case Nil
  then show ?case by simp
next
  case (Cons e es)
  from Cons.prems(3) obtain j1 where s: "step e j = Some j1" and r: "run es j1 = Some j'"
    by (auto split: option.splits)
  from idle_closed_step [OF Cons.prems(1,2) s] Cons.IH [OF _ _ r]
  show ?case by simp
qed

text \<open>
  Closed between two cycles, with no timer armed but the one in \<open>tov\<close>, the sweep
  starts no cycle again, whatever happens next.
\<close>

lemma close_while_idle:
  assumes "running j = 0" "set (timers j) \<subseteq> set_option (tov j)"
    and "run (Close # es) j = Some j'"
  shows "cycles j' = cycles j"
proof -
  have "timers (close j) = []"
    using assms(2)
    by (cases "tov j") (auto simp add: close_def filter_empty_conv removeAll_filter_not_eq)
  moreover have "running (close j) = 0" "cycles (close j) = cycles j"
    using assms(1) by (simp_all add: close_def split: option.splits)
  ultimately show ?thesis
    using assms(3) idle_closed_run [of "close j" es j'] by simp
qed

text \<open>
  C3. The claim: after \<^verbatim>\<open>close()\<close> no further cycle starts, and a cycle that is
  mid-flight at that moment finishes without scheduling a successor. The code: the timer
  fires and its cycle is running when \<^verbatim>\<open>close()\<close> is called; \<open>tov\<close> is the handle
  that has fired, so \<^verbatim>\<open>clearTimeout\<close> cancels nothing; the cycle settles and calls
  \<^verbatim>\<open>runJob\<close>, which arms timer 1; that timer fires and the second cycle starts.
\<close>

theorem close_mid_flight_reschedules:
  "run [TimerFires, Close, CycleSettles] init
     = Some \<lparr>tov = Some 1, timers = [1], running = 0, cycles = 1, fresh = 2\<rparr>
   \<and> run [TimerFires, Close, CycleSettles, TimerFires] init
     = Some \<lparr>tov = Some 1, timers = [], running = 1, cycles = 2, fresh = 2\<rparr>"
  by (simp add: init_def runJob_def close_def)

subsection \<open>The counter on deletion\<close>

lemma COUNTS_ne [simp]: "COUNTS \<noteq> []"
  by (simp add: COUNTS_def)

lemma delete_calls:
  assumes "rowKey \<noteq> []"
  shows "calls (delete c rowKey column w) =
           calls w
           @ [RowDeleteCells Table rowKey (cfName c) (str_or column (defaultColumn c)),
              RowExists Table rowKey]
           @ (if store_exists (store_deleteCells (table w) rowKey (cfName c)
                                 (str_or column (defaultColumn c))) rowKey
              then []
              else [RowIncrement TableMetadata COUNTS (cfNameMetadata c) COUNTS (- 1)])"
  using assms by (simp add: delete_def Let_def split_beta)

lemma deleteRow_calls:
  assumes "rowKey \<noteq> []"
  shows "calls (deleteRow c rowKey w) =
           calls w @ [RowIncrement TableMetadata COUNTS (cfNameMetadata c) COUNTS (- 1),
                      RowDelete Table rowKey]"
  using assms by (simp add: deleteRow_def)

lemma deleteRow_gone:
  assumes "rowKey \<noteq> []"
  shows "\<not> store_exists (table (deleteRow c rowKey w)) rowKey"
  using assms by (simp add: deleteRow_def store_exists_def store_delete_def delete_conv')

text \<open>
  C5, as amended. \<^verbatim>\<open>delete\<close> sends \<^verbatim>\<open>deleteCells\<close>, then the existence check,
  and the decrement after both and only when the check finds the row gone.
  \<^verbatim>\<open>deleteRow\<close> sends the decrement first and the row delete second, with no
  existence check; once both are applied the row does not exist.
\<close>

theorem decrement_on_delete:
  assumes "rowKey \<noteq> []"
  shows "calls (delete c rowKey column w) =
           calls w
           @ [RowDeleteCells Table rowKey (cfName c) (str_or column (defaultColumn c)),
              RowExists Table rowKey]
           @ (if store_exists (store_deleteCells (table w) rowKey (cfName c)
                                 (str_or column (defaultColumn c))) rowKey
              then []
              else [RowIncrement TableMetadata COUNTS (cfNameMetadata c) COUNTS (- 1)])
       \<and> calls (deleteRow c rowKey w) =
           calls w @ [RowIncrement TableMetadata COUNTS (cfNameMetadata c) COUNTS (- 1),
                      RowDelete Table rowKey]
       \<and> \<not> store_exists (table (deleteRow c rowKey w)) rowKey"
  using assms by (simp add: delete_calls deleteRow_calls deleteRow_gone)

theorem decrement_on_delete_witness:
  "''user1'' \<noteq> []
   \<and> calls (delete client0 ''user1'' (Some ''name'') world1) =
       calls world1
       @ [RowDeleteCells Table ''user1'' ''default'' ''name'',
          RowExists Table ''user1'',
          RowIncrement TableMetadata ''counts'' ''default_metadata'' ''counts'' (- 1)]
   \<and> calls (deleteRow client0 ''user1'' world1) =
       calls world1
       @ [RowIncrement TableMetadata ''counts'' ''default_metadata'' ''counts'' (- 1),
          RowDelete Table ''user1'']"
  using decrement_on_delete
    [where rowKey = "''user1''" and c = client0 and column = "Some ''name''" and w = world1]
  by (simp add: client0_fields world1_table str_or_def COUNTS_def store_exists_def
      store_deleteCells_def family_of_def Let_def)

text \<open>
  The claim as stated fails for \<^verbatim>\<open>deleteRow\<close>: on a row that never existed it sends
  the decrement before the delete and checks nothing, and the counter goes to \<open>-1\<close>.
\<close>

theorem deleteRow_decrements_unchecked:
  "\<not> store_exists (table world0) ''ghost''
   \<and> calls (deleteRow client0 ''ghost'' world0) =
       [RowIncrement TableMetadata ''counts'' ''default_metadata'' ''counts'' (- 1),
        RowDelete Table ''ghost'']
   \<and> count node client0 (deleteRow client0 ''ghost'' world0) = Inr (Num (- 1))"
  by (simp add: deleteRow_def client0_fields world0_fields COUNTS_def store_exists_def
      count_def retrieve_def store_get_def store_increment_def row_of_def family_of_def
      put_cell_def Let_def singleResult_def js_index_def js_or_def)

subsection \<open>The filter of the sweep (lib/BigtableClient.ts)\<close>

lemma metadata_deletes_append [simp]:
  "metadata_deletes (xs @ ys) = metadata_deletes xs @ metadata_deletes ys"
  by (induction xs rule: metadata_deletes.induct) simp_all

lemma expired_iff:
  assumes "js_ToNumber h (mc_value m) = Some v"
  shows "expired h t m \<longleftrightarrow>
           (of_int (mc_timestamp m) / 1000 + of_int (v * 1000) :: rat) < of_int t"
  using assms by (auto simp add: expired_def)

lemma set_filteredRowKeys:
  "set (filteredRowKeys h t scanned)
     = {mc_rowKey m | m. Some m \<in> set scanned \<and> expired h t m}"
  by (auto simp add: filteredRowKeys_def)

lemma delete_dispatch_frame [simp]:
  "tableMetadata (delete_dispatch c cell w) = tableMetadata w"
  "metadata_deletes (calls (delete_dispatch c cell w)) = metadata_deletes (calls w)"
  by (simp_all add: delete_dispatch_def)

lemma fold_delete_dispatch_frame [simp]:
  "tableMetadata (fold (delete_dispatch c) cells w) = tableMetadata w"
  "metadata_deletes (calls (fold (delete_dispatch c) cells w)) = metadata_deletes (calls w)"
  by (induction cells arbitrary: w) simp_all

lemma store_increment_other:
  "k \<noteq> key \<Longrightarrow> map_of (store_increment rows key fam col delta ts) k = map_of rows k"
  by (simp add: store_increment_def Let_def update_conv'
      split: option.splits list.splits js_value.splits)

lemma delete_resume_frame [simp]:
  "k \<noteq> COUNTS \<Longrightarrow>
     map_of (tableMetadata (delete_resume c cell w)) k = map_of (tableMetadata w) k"
  "metadata_deletes (calls (delete_resume c cell w)) = metadata_deletes (calls w)"
  by (simp_all add: delete_resume_def Let_def split_beta store_increment_other)

lemma fold_delete_resume_frame [simp]:
  "k \<noteq> COUNTS \<Longrightarrow>
     map_of (tableMetadata (fold (delete_resume c) cells w)) k = map_of (tableMetadata w) k"
  "metadata_deletes (calls (fold (delete_resume c) cells w)) = metadata_deletes (calls w)"
  by (induction cells arbitrary: w) simp_all

lemma calls_fold_row_delete:
  "metadata_deletes (calls (fold (row_delete TableMetadata) ks w))
     = metadata_deletes (calls w) @ ks"
  by (induction ks arbitrary: w) simp_all

lemma rows_fold_row_delete:
  "map_of (tableMetadata (fold (row_delete TableMetadata) ks w)) k
     = (if k \<in> set ks then None else map_of (tableMetadata w) k)"
  by (induction ks arbitrary: w) (auto simp add: store_delete_def delete_conv')

text \<open>
  C1, as amended. A marker whose TTL cell holds the number \<open>v\<close> is expired exactly
  when its write time in milliseconds plus \<open>v * 1000\<close> is strictly less than the
  current time. When the scan succeeds, the sweep deletes the metadata rows of the expired
  markers and no others: every other marker row is left as it was, for the next cycle.
\<close>

theorem sweep_deletes_expired:
  assumes "js_ToNumber h (mc_value m) = Some v"
    and "scanCells c (tableMetadata w) = Fulfilled scanned"
  shows "(expired h t m \<longleftrightarrow>
            (of_int (mc_timestamp m) / 1000 + of_int (v * 1000) :: rat) < of_int t)
       \<and> (\<exists>w'. deleteExpiredData h c w = Fulfilled w'
             \<and> metadata_deletes (calls w')
                 = metadata_deletes (calls w) @ filteredRowKeys h (now w) scanned
             \<and> set (filteredRowKeys h (now w) scanned)
                 = {mc_rowKey m | m. Some m \<in> set scanned \<and> expired h (now w) m}
             \<and> (\<forall>k. k \<noteq> COUNTS \<longrightarrow>
                   map_of (tableMetadata w') k
                     = (if k \<in> set (filteredRowKeys h (now w) scanned) then None
                        else map_of (tableMetadata w) k)))"
proof -
  have "expired h t m \<longleftrightarrow>
          (of_int (mc_timestamp m) / 1000 + of_int (v * 1000) :: rat) < of_int t"
    using assms(1) by (rule expired_iff)
  moreover have "deleteExpiredData h c w =
      Fulfilled (fold (delete_resume c) (map owner (filteredRowKeys h (now w) scanned))
            (fold (row_delete TableMetadata) (filteredRowKeys h (now w) scanned)
              (fold (delete_dispatch c) (map owner (filteredRowKeys h (now w) scanned)) w)))"
    using assms(2) by (simp add: deleteExpiredData_def Let_def)
  ultimately show ?thesis
    by (simp add: calls_fold_row_delete rows_fold_row_delete set_filteredRowKeys [symmetric])
qed

theorem sweep_deletes_expired_witness:
  "js_ToNumber node (mc_value marker0) = Some 5
   \<and> scanCells lib0 (tableMetadata world2) = Fulfilled [Some marker0]
   \<and> expired node 7000 marker0
   \<and> (\<exists>w'. deleteExpiredData node lib0 world2 = Fulfilled w'
         \<and> metadata_deletes (calls w') = [''user1#cf:name'']
         \<and> map_of (tableMetadata w') ''user1#cf:name'' = None)"
proof -
  have n: "js_ToNumber node (mc_value marker0) = Some 5"
    by (simp add: js_ToNumber_def marker0_def)
  have e: "expired node 7000 marker0"
    by (simp add: expired_def js_ToNumber_def marker0_def)
  then have f: "filteredRowKeys node 7000 [Some marker0] = [''user1#cf:name'']"
    by (simp add: filteredRowKeys_def marker0_def)
  from sweep_deletes_expired [OF n world2_scan, where t = 7000]
  obtain w' where "deleteExpiredData node lib0 world2 = Fulfilled w'"
    and "metadata_deletes (calls w') = [''user1#cf:name'']"
    and "\<forall>k. k \<noteq> COUNTS \<longrightarrow> map_of (tableMetadata w') k
           = (if k \<in> set [''user1#cf:name''] then None else map_of (tableMetadata world2) k)"
    by (auto simp add: world2_fields f)
  then have "deleteExpiredData node lib0 world2 = Fulfilled w'
      \<and> metadata_deletes (calls w') = [''user1#cf:name'']
      \<and> map_of (tableMetadata w') ''user1#cf:name'' = None"
    by (simp add: COUNTS_def)
  then show ?thesis
    using n e world2_scan by blast
qed

text \<open>
  The claim as stated, with \<open>\<le>\<close>, fails at the moment of expiry: the marker written at
  1000 ms with a TTL of 5 s satisfies \<open>1000 + 5 * 1000 \<le> 6000\<close>, and at time 6000 the
  filter does not select it.
\<close>

theorem sweep_keeps_marker_at_expiry:
  "(of_int (mc_timestamp marker0) / 1000 + of_int (5 * 1000) :: rat) \<le> of_int 6000
   \<and> js_ToNumber node (mc_value marker0) = Some 5
   \<and> \<not> expired node 6000 marker0
   \<and> filteredRowKeys node 6000 [Some marker0] = []"
  by (simp add: marker0_def expired_def js_ToNumber_def filteredRowKeys_def)

subsection \<open>The counter on creation\<close>

lemma count_counter:
  assumes "counter c w = Some n"
  shows "count h c w = Inr (Num n)"
  using assms
  by (auto simp add: counter_def count_def retrieve_def store_get_def COUNTS_def startsWith_def
      singleResult_def js_index_def js_or_def Let_def
      split: option.splits list.splits js_value.splits)

lemma counter_increment:
  assumes "counter c w = Some n"
  shows "counter c (row_increment TableMetadata COUNTS (cfNameMetadata c) COUNTS d w) = Some (n + d)"
  using assms
  by (auto simp add: counter_def store_increment_def row_of_def Let_def update_conv'
      put_cell_def family_of_def split: option.splits list.splits js_value.splits)

lemma getTTLRowKey_not_COUNTS: "getTTLRowKey h c t n \<noteq> COUNTS"
  by (simp add: getTTLRowKey_def COUNTS_def Let_def)

lemma store_insert_other:
  "k \<noteq> key \<Longrightarrow> map_of (store_insert rows key fam d ts) k = map_of rows k"
  by (simp add: store_insert_def update_conv')

lemma COUNTS_row_marker_write:
  "map_of (tableMetadata (marker_write h c rowKey cols ttl w)) COUNTS
     = map_of (tableMetadata w) COUNTS"
proof (cases "truthy_ttl ttl")
  case None
  then show ?thesis by (simp add: marker_write_def)
next
  case (Some n)
  have "COUNTS \<noteq> getTTLRowKey h c (now w) n"
    using getTTLRowKey_not_COUNTS [of h c "now w" n] by simp
  then show ?thesis
    using Some by (simp add: marker_write_def Let_def insert_cells_def store_insert_other)
qed

lemma counter_marker_write [simp]:
  "counter c (marker_write h c rowKey cols ttl w) = counter c w"
  by (simp add: counter_def COUNTS_row_marker_write)

lemma counter_insert_primary [simp]:
  "counter c (insert_cells h Table cf k d w) = counter c w"
  by (simp add: counter_def)

lemma counter_increment_primary [simp]:
  "counter c (row_increment Table k cf col d w) = counter c w"
  by (simp add: counter_def)

lemma counter_count_new_row:
  assumes "counter c w = Some n"
  shows "counter c (count_new_row c k w) = Some (if store_exists (table w) k then n else n + 1)"
  using assms counter_increment [of c "snd (row_exists Table k w)" n 1]
  by (simp add: count_new_row_def split_beta counter_def)

lemma truthy_ttl_Some: "truthy_ttl ttl = Some n \<Longrightarrow> n \<noteq> 0"
  by (auto simp add: truthy_ttl_def split: option.splits if_splits)

lemma cleanedValue_Num: "n \<noteq> 0 \<Longrightarrow> cleanedValue S (Num n) = Num n"
  by (simp add: cleanedValue_def sanitizedValue_def js_or_def)

text \<open>
  The client with sharded markers checks before it writes, in each of its four writes: the
  existence check is sent before the primary write, the increment exactly when the check
  finds no row, and \<^verbatim>\<open>count()\<close> is then one more than before.
\<close>

lemma set_part_000_counts:
  assumes "counter c w = Some n"
  shows "calls (set_part_000 h c rowKey v ttl column w)
           = calls (marker_write h c rowKey [str_or column (defaultColumn c)] ttl w)
             @ [RowExists Table rowKey]
             @ (if store_exists (table w) rowKey then []
                else [RowIncrement TableMetadata COUNTS (cfNameMetadata c) COUNTS 1])
             @ (if rowKey = [] then []
                else [TableInsert Table rowKey (cfName c)
                        [(str_or column (defaultColumn c), cleanedValue (JSON_stringify h) v)]])
       \<and> count h c (set_part_000 h c rowKey v ttl column w)
           = Inr (Num (if store_exists (table w) rowKey then n else n + 1))"
  using assms
  by (simp add: set_part_000_def Let_def calls_insert_cells calls_count_new_row
      count_counter counter_count_new_row)

lemma multiSet_part_000_counts:
  assumes "counter c w = Some n" and "columnsObject \<noteq> []"
  shows "calls (multiSet_part_000 h c rowKey columnsObject ttl w)
           = calls (marker_write h c rowKey (map fst columnsObject) ttl w)
             @ [RowExists Table rowKey]
             @ (if store_exists (table w) rowKey then []
                else [RowIncrement TableMetadata COUNTS (cfNameMetadata c) COUNTS 1])
             @ (if rowKey = [] then []
                else [TableInsert Table rowKey (cfName c)
                        (cleanedData (JSON_stringify h) columnsObject)])
       \<and> count h c (multiSet_part_000 h c rowKey columnsObject ttl w)
           = Inr (Num (if store_exists (table w) rowKey then n else n + 1))"
  using assms
  by (simp add: multiSet_part_000_def Let_def calls_insert_cells calls_count_new_row
      count_counter counter_count_new_row)

lemma add_part_000_counts:
  assumes "counter c w = Some n" and "rowKey \<noteq> []"
  shows "calls (add_part_000 delta h c rowKey column ttl w)
           = calls (marker_write h c rowKey [str_or column (defaultColumn c)] ttl w)
             @ [RowExists Table rowKey]
             @ (if store_exists (table w) rowKey then []
                else [RowIncrement TableMetadata COUNTS (cfNameMetadata c) COUNTS 1])
             @ [RowIncrement Table rowKey (cfName c) (str_or column (defaultColumn c)) delta]
       \<and> count h c (add_part_000 delta h c rowKey column ttl w)
           = Inr (Num (if store_exists (table w) rowKey then n else n + 1))"
  using assms
  by (simp add: add_part_000_def Let_def calls_count_new_row
      count_counter counter_count_new_row)

text \<open>
  In lib/BigtableClient.ts the primary write is the first request of \<^verbatim>\<open>set\<close> and
  the existence check the second; no increment follows when the store applies them in
  that order, since the row exists by then.
\<close>

lemma set_lib_never_counts:
  assumes "rowKey \<noteq> []"
  shows "calls (set_lib h c rowKey v ttl column w)
           = calls w
             @ [TableInsert Table rowKey (cfName c)
                  [(str_or column (defaultColumn c), cleanedValue (JSON_stringify h) v)],
                RowExists Table rowKey]
             @ (case truthy_ttl ttl of
                  None \<Rightarrow> []
                | Some n \<Rightarrow>
                    [TableInsert TableMetadata
                       (ttlRowKey_lib c rowKey (str_or column (defaultColumn c)))
                       (cfNameMetadata c) [(''ttl'', Num n)]])"
proof -
  have k: "ttlRowKey_lib c rowKey (str_or column (defaultColumn c)) \<noteq> []"
    using assms by (simp add: ttlRowKey_lib_def)
  have e: "store_exists (table (insert_cells h Table (cfName c) rowKey
             [(str_or column (defaultColumn c), v)] w)) rowKey"
    using assms by (simp add: insert_cells_def store_exists_def store_insert_def update_conv')
  show ?thesis
    using assms k e
    by (auto simp add: set_lib_def Let_def calls_insert_cells calls_count_new_row
        marker_write_lib_def cleanedValue_Num dest: truthy_ttl_Some split: option.splits)
qed

text \<open>
  C6. The claim: the existence of the row is checked before the primary write is
  dispatched, and a brand-new row raises \<^verbatim>\<open>count()\<close> by one. The code of
  lib/BigtableClient.ts on empty tables: \<^verbatim>\<open>set("user1", "alice", undefined, "name")\<close>
  sends the insert, then the check, and no increment; \<^verbatim>\<open>count()\<close> stays 0.
\<close>

theorem set_lib_checks_after_write:
  "\<not> store_exists (table world0) ''user1''
   \<and> calls (set_lib node lib0 ''user1'' (Str ''alice'') None (Some ''name'') world0)
       = [TableInsert Table ''user1'' ''cf'' [(''name'', Str ''alice'')],
          RowExists Table ''user1'']
   \<and> count node lib0 (set_lib node lib0 ''user1'' (Str ''alice'') None (Some ''name'') world0)
       = Inr (Num 0)"
  by (simp add: set_lib_def lib0_fields world0_fields Let_def str_or_def calls_insert_cells
      calls_count_new_row tableMetadata_count_new_row marker_write_lib_def truthy_ttl_def
      insert_cells_def store_exists_def store_insert_def row_of_def put_cell_def family_of_def
      update_conv' cleanedValue_def sanitizedValue_def
      js_or_def count_def retrieve_def store_get_def COUNTS_def startsWith_def)

text \<open>The same call on the client with sharded markers.\<close>

lemma set_part_000_counts_new_row:
  "calls (set_part_000 node client0 ''user1'' (Str ''alice'') None (Some ''name'') world0)
       = [RowExists Table ''user1'',
          RowIncrement TableMetadata ''counts'' ''default_metadata'' ''counts'' 1,
          TableInsert Table ''user1'' ''default'' [(''name'', Str ''alice'')]]
   \<and> count node client0
         (set_part_000 node client0 ''user1'' (Str ''alice'') None (Some ''name'') world0)
       = Inr (Num 1)"
  by (simp add: set_part_000_def client0_fields world0_fields Let_def str_or_def
      calls_insert_cells calls_count_new_row tableMetadata_count_new_row marker_write_def
      truthy_ttl_def store_exists_def cleanedValue_def sanitizedValue_def js_or_def count_def
      retrieve_def store_get_def COUNTS_def store_increment_def row_of_def family_of_def
      put_cell_def singleResult_def js_index_def)

subsection \<open>Reading a row the store does not know\<close>

text \<open>
  \<^verbatim>\<open>retrieve\<close> turns the store's "Unknown row" error into \<^verbatim>\<open>null\<close> and throws
  every other error as it is; \<^verbatim>\<open>get\<close>, \<^verbatim>\<open>getRow\<close> and \<^verbatim>\<open>count\<close> pass
  that on, \<^verbatim>\<open>count\<close> as 0.
\<close>

lemma retrieve_store_error:
  assumes "rowKey \<noteq> []"
    and "row_get (map_option (Pair cf)
            (case column of None \<Rightarrow> None | Some col \<Rightarrow> if col = [] then None else Some col))
          = Inl error"
  shows "retrieve h cf rowKey column complete' row_get =
           (if startsWith (message error) ''Unknown row'' then Inr Null else Inl error)"
  using assms by (simp add: retrieve_def Let_def)

lemma store_get_unknown:
  "map_of rows key = None \<Longrightarrow> store_get rows key column = Inl (Error (''Unknown row: '' @ key @ ''.''))"
  by (simp add: store_get_def)

lemma retrieve_unknown_row:
  assumes "rowKey \<noteq> []" "map_of rows rowKey = None"
  shows "retrieve h cf rowKey column complete' (store_get rows rowKey) = Inr Null"
  using assms by (simp add: retrieve_def Let_def store_get_unknown startsWith_def)

lemma reads_of_unknown_row:
  assumes "rowKey \<noteq> []" "map_of (table w) rowKey = None"
  shows "get h c rowKey column w = Inr Null" "getRow h c rowKey w = Inr Null"
  using assms by (simp_all add: get_def getRow_def Let_def retrieve_unknown_row)

lemma count_of_unknown_row:
  assumes "map_of (tableMetadata w) COUNTS = None"
  shows "count h c w = Inr (Num 0)"
  using assms by (simp add: count_def retrieve_unknown_row js_or_def)

lemma retrieve_store_TypeError:
  "\<exists>r. retrieve h cf rowKey column complete' (store_get rows key) = Inr r
     \<or> (\<exists>m. retrieve h cf rowKey column complete' (store_get rows key) = Inl (TypeError m))"
  by (auto simp add: retrieve_def Let_def store_get_def startsWith_def split: option.splits)

lemma ttl_lib_unknown_row:
  assumes "rowKey \<noteq> []" "map_of (table w) rowKey = None"
  shows "\<exists>m. ttl_lib h c rowKey column w = Inl (TypeError m)"
proof -
  let ?k = "ttlRowKey_lib c rowKey (str_or column (defaultColumn c))"
  have 2: "retrieve h (cfName c) rowKey (Some (str_or column (defaultColumn c))) True
             (store_get (table w) rowKey) = Inr Null"
    using assms by (rule retrieve_unknown_row)
  from retrieve_store_TypeError [of h "cfNameMetadata c" ?k "Some ''ttl''" False "tableMetadata w" ?k]
  show ?thesis
    by (auto simp add: ttl_lib_def Let_def 2)
qed

text \<open>
  C7. The claim: at every read path, \<^verbatim>\<open>ttl\<close> among them, a row the store does not
  know resolves to a null or empty result and never to an exception. The code of
  lib/BigtableClient.ts on empty tables: both \<^verbatim>\<open>retrieve\<close> calls of
  \<^verbatim>\<open>ttl("ghost")\<close> resolve to \<^verbatim>\<open>null\<close>, and \<^verbatim>\<open>rowComplete.timestamp\<close>
  then throws a \<^verbatim>\<open>TypeError\<close>.
\<close>

theorem ttl_of_unknown_row_throws:
  "store_get (table world0) ''ghost'' (Some (''cf'', ''value''))
     = Inl (Error ''Unknown row: ghost.'')
   \<and> get node lib0 ''ghost'' None world0 = Inr Null
   \<and> ttl_lib node lib0 ''ghost'' None world0
       = Inl (TypeError ''Cannot read property timestamp of null'')"
  by (simp add: ttl_lib_def get_def lib0_fields world0_fields Let_def str_or_def
      retrieve_def store_get_def startsWith_def ttlRowKey_lib_def)

subsection \<open>The reference host reads back what it prints\<close>

lemma digit_val_digit_char: "d < 10 \<Longrightarrow> digit_val (digit_char d) = Some d"
proof -
  assume "d < 10"
  then have "d \<in> {0,1,2,3,4,5,6,7,8,9}" by auto
  then show ?thesis
    by (auto simp add: digit_val_def digit_char_def)
qed

lemma parse_digits_toString:
  "parse_digits acc (nat_toString n @ r)
     = parse_digits (acc * 10 ^ length (nat_toString n) + n) r"
proof (induction n arbitrary: acc r rule: nat_toString.induct)
  case (1 n)
  show ?case
  proof (cases "n < 10")
    case True
    then show ?thesis
      by (simp add: nat_toString.simps [of n] digit_val_digit_char mult.commute)
  next
    case False
    have d: "digit_val (digit_char (n mod 10)) = Some (n mod 10)"
      by (simp add: digit_val_digit_char)
    have "parse_digits acc (nat_toString n @ r)
            = parse_digits acc (nat_toString (n div 10) @ (digit_char (n mod 10) # r))"
      using False by (simp add: nat_toString.simps [of n])
    also have "\<dots> = parse_digits (acc * 10 ^ length (nat_toString (n div 10)) + n div 10)
                        (digit_char (n mod 10) # r)"
      using False by (rule "1.IH")
    also have "\<dots> = parse_digits (acc * 10 ^ length (nat_toString n) + n) r"
      using False by (simp add: d nat_toString.simps [of n] algebra_simps)
    finally show ?thesis .
  qed
qed

lemma parse_digits_stop: "no_digit r \<Longrightarrow> parse_digits acc r = (acc, r)"
  by (cases r) (simp_all add: no_digit_def)

lemma nat_toString_nonempty: "nat_toString n \<noteq> []"
  by (simp add: nat_toString.simps [of n])

lemma hd_nat_toString:
  "\<exists>d cs. nat_toString n = digit_char d # cs \<and> d < 10 \<and> (0 < n \<longrightarrow> 0 < d)"
proof (induction n rule: nat_toString.induct)
  case (1 n)
  show ?case
  proof (cases "n < 10")
    case True
    then have "nat_toString n = digit_char n # [] \<and> n < 10 \<and> (0 < n \<longrightarrow> 0 < n)"
      by (simp add: nat_toString.simps [of n])
    then show ?thesis by (intro exI)
  next
    case False
    from "1.IH" [OF False] obtain d cs where
      "nat_toString (n div 10) = digit_char d # cs \<and> d < 10 \<and> (0 < n div 10 \<longrightarrow> 0 < d)"
      by (elim exE)
    moreover have "0 < n div 10" using False by simp
    ultimately have "nat_toString n = digit_char d # (cs @ [digit_char (n mod 10)])
        \<and> d < 10 \<and> (0 < n \<longrightarrow> 0 < d)"
      using False by (simp add: nat_toString.simps [of n])
    then show ?thesis by (intro exI)
  qed
qed

lemma parse_nat_toString:
  assumes "no_digit r"
  shows "parse_nat (nat_toString n @ r) = Some (n, r)"
proof -
  obtain d cs where s: "nat_toString n = digit_char d # cs" and d: "d < 10" "0 < n \<longrightarrow> 0 < d"
    using hd_nat_toString [of n] by auto
  show ?thesis
  proof (cases "n = 0")
    case True
    then show ?thesis
      by (simp add: nat_toString.simps [of 0] parse_nat_def digit_val_digit_char)
  next
    case False
    then have "0 < d" using d by simp
    have "parse_digits 0 (nat_toString n @ r) = (n, r)"
      using assms by (simp add: parse_digits_toString parse_digits_stop)
    then have "parse_digits d (cs @ r) = (n, r)"
      using d by (simp add: s digit_val_digit_char)
    then show ?thesis
      using \<open>0 < d\<close> d by (simp add: parse_nat_def s digit_val_digit_char)
  qed
qed

lemma digit_char_not_minus: "d < 10 \<Longrightarrow> digit_char d \<noteq> CHR ''-''"
proof -
  assume "d < 10"
  then have "d \<in> {0,1,2,3,4,5,6,7,8,9}" by auto
  then show ?thesis by (auto simp add: digit_char_def)
qed

lemma parse_int_toString:
  assumes "no_digit r"
  shows "parse_int (int_toString i @ r) = Some (i, r)"
proof (cases "i < 0")
  case True
  then show ?thesis
    using assms by (simp add: int_toString_def parse_int_def parse_nat_toString)
next
  case False
  obtain d cs where s: "nat_toString (nat i) = digit_char d # cs" and d: "d < 10"
    using hd_nat_toString [of "nat i"] by auto
  have "parse_nat (nat_toString (nat i) @ r) = Some (nat i, r)"
    using assms by (rule parse_nat_toString)
  then show ?thesis
    using False d by (simp add: int_toString_def parse_int_def s digit_char_not_minus)
qed

lemma hex_val_hex_char: "d < 16 \<Longrightarrow> hex_val (hex_char d) = Some d"
proof -
  assume "d < 16"
  then have "d = 0 \<or> d = 1 \<or> d = 2 \<or> d = 3 \<or> d = 4 \<or> d = 5 \<or> d = 6 \<or> d = 7
      \<or> d = 8 \<or> d = 9 \<or> d = 10 \<or> d = 11 \<or> d = 12 \<or> d = 13 \<or> d = 14 \<or> d = 15"
    by arith
  then show ?thesis
    by (auto simp add: hex_val_def hex_char_def)
qed

lemma hex4_control:
  assumes "(of_char c :: nat) < 32"
  shows "hex4 CHR ''0'' CHR ''0'' (hex_char (of_char c div 16)) (hex_char (of_char c mod 16))
           = Some c"
proof -
  have z: "hex_val CHR ''0'' = Some 0"
    by (simp add: hex_val_def)
  have a: "hex_val (hex_char (of_char c div 16)) = Some (of_char c div 16)"
    using assms by (intro hex_val_hex_char) simp
  have b: "hex_val (hex_char (of_char c mod 16)) = Some (of_char c mod 16)"
    by (intro hex_val_hex_char) simp
  have "char_of (16 * (of_char c div 16) + of_char c mod 16 :: nat) = c"
    by simp
  then show ?thesis
    by (simp add: hex4_def z a b)
qed

lemma parse_chars_quote_char:
  "parse_chars (quote_char c @ rest)
     = (case parse_chars rest of None \<Rightarrow> None | Some (str, r) \<Rightarrow> Some (c # str, r))"
proof (cases "(of_char c :: nat) < 32")
  case True
  then have ne: "c \<noteq> CHR 0x22" "c \<noteq> CHR 0x5C"
    by auto
  show ?thesis
    using True ne
    by (auto simp add: quote_char_def unescape_def hex4_control)
next
  case False
  then have ne: "c \<noteq> CHR 0x08" "c \<noteq> CHR 0x0C" "c \<noteq> CHR 0x0A" "c \<noteq> CHR 0x0D" "c \<noteq> CHR 0x09"
    by auto
  show ?thesis
    using False ne
    by (auto simp add: quote_char_def unescape_def)
qed

lemma parse_chars_quoted:
  "parse_chars (concat (map quote_char s) @ CHR 0x22 # r) = Some (s, r)"
  by (induction s) (simp_all add: parse_chars_quote_char del: parse_chars.simps, simp)

lemma starts_value_simps:
  assumes "starts_value c"
  shows "\<not> is_ws c" "c \<noteq> CHR '']''" "c \<noteq> CHR ''}''" "c \<noteq> CHR '',''" "c \<noteq> CHR '':''"
  using assms by (auto simp add: starts_value_def is_ws_def)

lemma skip_ws_starts_value [simp]: "starts_value c \<Longrightarrow> skip_ws (c # cs) = c # cs"
  by (simp add: starts_value_simps)

lemma digit_char_in: "d < 10 \<Longrightarrow> digit_char d \<in> set ''0123456789''"
  unfolding digit_char_def by (rule nth_mem) simp

lemma int_toString_start:
  "\<exists>c cs. int_toString i = c # cs \<and> c \<in> set ''-0123456789''"
proof -
  obtain d cs where "nat_toString (nat \<bar>i\<bar>) = digit_char d # cs \<and> d < 10"
    using hd_nat_toString [of "nat \<bar>i\<bar>"] by auto
  then have "int_toString i = (if i < 0 then CHR ''-'' # digit_char d # cs else digit_char d # cs)
      \<and> digit_char d \<in> set ''0123456789''"
    using digit_char_in [of d] by (auto simp add: int_toString_def)
  then show ?thesis
    by (cases "i < 0") auto
qed

lemma ends_value_no_digit: "ends_value r \<Longrightarrow> no_digit r"
  by (auto simp add: ends_value_def no_digit_def digit_val_def split: list.splits)

lemma ends_value_simps [simp]:
  "ends_value []" "ends_value (CHR '','' # r)" "ends_value (CHR '']'' # r)"
  "ends_value (CHR ''}'' # r)"
  by (simp_all add: ends_value_def)

lemma starts_value_quote [simp]: "starts_value (CHR 0x22)"
  by (simp add: starts_value_def)

lemma stringify_start:
  assumes "v \<noteq> Undefined"
  shows "\<exists>c cs. stringify v = c # cs \<and> starts_value c"
proof (cases v)
  case (Num i)
  obtain c cs where "int_toString i = c # cs \<and> c \<in> set ''-0123456789''"
    using int_toString_start [of i] by auto
  then have "stringify v = c # cs \<and> starts_value c"
    using Num by (auto simp add: starts_value_def)
  then show ?thesis by (intro exI)
qed (use assms in \<open>auto simp add: starts_value_def quote_def\<close>)

lemma join_comma_Cons:
  "join_comma (s # ss) = s @ (if ss = [] then [] else CHR '','' # join_comma ss)"
  by (cases ss) simp_all

lemma elements_start:
  assumes "xs \<noteq> []" "\<forall>x \<in> set xs. x \<noteq> Undefined"
  shows "\<exists>c cs. join_comma (map stringify xs) = c # cs \<and> starts_value c"
proof -
  obtain x xs' where xs: "xs = x # xs'"
    using assms(1) by (cases xs) auto
  then obtain c cs where "stringify x = c # cs \<and> starts_value c"
    using stringify_start [of x] assms(2) by auto
  then have "join_comma (map stringify xs) = c # (cs @ (if xs' = [] then [] else CHR '','' # join_comma (map stringify xs')))
      \<and> starts_value c"
    by (simp add: xs join_comma_Cons)
  then show ?thesis by (intro exI)
qed

lemma parse_elements_text:
  assumes "\<And>x n r. x \<in> set xs \<Longrightarrow> weight x \<le> n \<Longrightarrow> ends_value r
              \<Longrightarrow> parse_value n (stringify x @ r) = Some (x, r)"
    and "xs \<noteq> []"
    and "sum_list (map (\<lambda>x. Suc (weight x)) xs) \<le> n"
  shows "parse_elements n (join_comma (map stringify xs) @ CHR '']'' # r) = Some (xs, r)"
  using assms
proof (induction xs arbitrary: n)
  case Nil
  then show ?case by simp
next
  case (Cons x xs)
  from Cons.prems(3) obtain m where n: "n = Suc m" and m: "weight x \<le> m"
      "sum_list (map (\<lambda>x. Suc (weight x)) xs) \<le> m"
    by (cases n) auto
  show ?case
  proof (cases "xs = []")
    case True
    have "parse_value m (stringify x @ CHR '']'' # r) = Some (x, CHR '']'' # r)"
      using m by (intro Cons.prems(1)) simp_all
    then show ?thesis
      by (simp add: n True is_ws_def)
  next
    case False
    let ?rest = "join_comma (map stringify xs) @ CHR '']'' # r"
    have 1: "parse_value m (stringify x @ CHR '','' # ?rest) = Some (x, CHR '','' # ?rest)"
      using m by (intro Cons.prems(1)) simp_all
    have 2: "parse_elements m ?rest = Some (xs, r)"
      using False m(2) by (intro Cons.IH Cons.prems(1)) simp_all
    show ?thesis
      using False by (simp add: n join_comma_Cons 1 2 is_ws_def)
  qed
qed

lemma add_member_fresh: "k \<notin> fst ` set kvs \<Longrightarrow> add_member k v kvs = (k, v) # kvs"
  by (simp add: add_member_def map_of_eq_None_iff [THEN iffD2])

lemma parse_member:
  assumes "parse_value m (stringify v @ rest) = Some (v, rest)"
  shows "parse_members (Suc m) (member_text (k, v) @ rest)
           = (case skip_ws rest of
                [] \<Rightarrow> None
              | c # r' \<Rightarrow>
                  if c = CHR '','' then
                    (case parse_members m r' of
                       None \<Rightarrow> None
                     | Some (kvs, r'') \<Rightarrow> Some (add_member k v kvs, r''))
                  else if c = CHR ''}'' then Some ([(k, v)], r')
                  else None)"
proof -
  have t: "member_text (k, v) @ rest
             = CHR 0x22 # (concat (map quote_char k) @ CHR 0x22 # (CHR '':'' # stringify v @ rest))"
    by (simp add: member_text_def quote_def)
  show ?thesis
    unfolding t
    by (simp add: parse_chars_quoted assms is_ws_def del: parse_chars.simps)
qed

lemma parse_members_text:
  assumes "\<And>kv n r. kv \<in> set kvs \<Longrightarrow> weight (snd kv) \<le> n \<Longrightarrow> ends_value r
              \<Longrightarrow> parse_value n (stringify (snd kv) @ r) = Some (snd kv, r)"
    and "kvs \<noteq> []"
    and "distinct (map fst kvs)"
    and "sum_list (map (\<lambda>kv. Suc (weight (snd kv))) kvs) \<le> n"
  shows "parse_members n (join_comma (map member_text kvs) @ CHR ''}'' # r) = Some (kvs, r)"
  using assms
proof (induction kvs arbitrary: n)
  case Nil
  then show ?case by simp
next
  case (Cons kv kvs)
  obtain k v where kv: "kv = (k, v)"
    by (cases kv)
  from Cons.prems(4) obtain m where n: "n = Suc m" and m: "weight v \<le> m"
      "sum_list (map (\<lambda>kv. Suc (weight (snd kv))) kvs) \<le> m"
    by (cases n) (auto simp add: kv)
  show ?case
  proof (cases "kvs = []")
    case True
    have "parse_value m (stringify v @ CHR ''}'' # r) = Some (v, CHR ''}'' # r)"
      using m Cons.prems(1) [of kv m "CHR ''}'' # r"] by (simp add: kv)
    from parse_member [OF this, of k]
    show ?thesis
      by (simp add: n True kv is_ws_def)
  next
    case False
    let ?rest = "join_comma (map member_text kvs) @ CHR ''}'' # r"
    have 1: "parse_value m (stringify v @ CHR '','' # ?rest) = Some (v, CHR '','' # ?rest)"
      using m Cons.prems(1) [of kv m "CHR '','' # ?rest"] by (simp add: kv)
    have 2: "parse_members m ?rest = Some (kvs, r)"
      using False m(2) Cons.prems(3) by (intro Cons.IH Cons.prems(1)) simp_all
    have 3: "k \<notin> fst ` set kvs"
      using Cons.prems(3) by (simp add: kv)
    from parse_member [OF 1, of k]
    show ?thesis
      using False by (simp add: n kv join_comma_Cons 2 is_ws_def add_member_fresh [OF 3])
  qed
qed

lemma map_stringify_jsonable:
  "\<forall>x \<in> set xs. x \<noteq> Undefined \<Longrightarrow>
     map (\<lambda>x. if x = Undefined then ''null'' else stringify x) xs = map stringify xs"
  by (induction xs) simp_all

lemma members_jsonable:
  "\<forall>kv \<in> set kvs. snd kv \<noteq> Undefined \<Longrightarrow>
     map (\<lambda>(k, v). quote k @ '':'' @ stringify v) (filter (\<lambda>(k, v). v \<noteq> Undefined) kvs)
       = map member_text kvs"
  by (induction kvs) (auto simp add: member_text_def)

lemma jsonable_defined: "jsonable v \<Longrightarrow> v \<noteq> Undefined"
  by auto

lemma members_start:
  assumes "kvs \<noteq> []"
  shows "\<exists>cs. join_comma (map member_text kvs) = CHR 0x22 # cs"
proof -
  obtain kv kvs' where "kvs = kv # kvs'"
    using assms by (cases kvs) auto
  then have "join_comma (map member_text kvs)
      = CHR 0x22 # (concat (map quote_char (fst kv)) @ [CHR 0x22] @ '':'' @ stringify (snd kv)
          @ (if kvs' = [] then [] else CHR '','' # join_comma (map member_text kvs')))"
    by (simp add: join_comma_Cons member_text_def quote_def)
  then show ?thesis by (intro exI)
qed

lemma parse_value_stringify:
  assumes "jsonable v" "weight v \<le> n" "ends_value r"
  shows "parse_value n (stringify v @ r) = Some (v, r)"
  using assms
proof (induction v arbitrary: n r)
  case Undefined
  then show ?case by simp
next
  case Null
  then obtain m where "n = Suc m" by (cases n) auto
  then show ?case by (simp add: is_ws_def)
next
  case (Bool b)
  then obtain m where "n = Suc m" by (cases n) auto
  then show ?case by (simp add: is_ws_def)
next
  case (Num i)
  then obtain m where n: "n = Suc m" by (cases n) auto
  obtain c cs where s: "int_toString i = c # cs" and c: "c \<in> set ''-0123456789''"
    using int_toString_start [of i] by auto
  have "parse_int (c # cs @ r) = Some (i, r)"
    using parse_int_toString [OF ends_value_no_digit [OF Num.prems(3)], of i] by (simp add: s)
  then show ?case
    using c by (auto simp add: n s is_ws_def)
next
  case (Str str)
  then obtain m where n: "n = Suc m" by (cases n) auto
  have "parse_chars (concat (map quote_char str) @ CHR 0x22 # r) = Some (str, r)"
    by (rule parse_chars_quoted)
  then show ?case
    by (simp add: n quote_def is_ws_def del: parse_chars.simps)
next
  case (Arr xs)
  from Arr.prems(2) obtain m where n: "n = Suc m"
    and m: "sum_list (map (\<lambda>x. Suc (weight x)) xs) \<le> m"
    by (cases n) auto
  have d: "\<forall>x \<in> set xs. x \<noteq> Undefined"
    using Arr.prems(1) by (auto dest: jsonable_defined)
  show ?case
  proof (cases "xs = []")
    case True
    then show ?thesis by (simp add: n is_ws_def)
  next
    case False
    obtain c cs where e: "join_comma (map stringify xs) = c # cs" and c: "starts_value c"
      using elements_start [OF False d] by auto
    have "parse_elements m (join_comma (map stringify xs) @ CHR '']'' # r) = Some (xs, r)"
      using Arr.prems(1) Arr.IH False m by (intro parse_elements_text) simp_all
    then have p: "parse_elements m (c # cs @ CHR '']'' # r) = Some (xs, r)"
      by (simp add: e)
    have o: "skip_ws (CHR ''['' # c # cs @ CHR '']'' # r) = CHR ''['' # c # cs @ CHR '']'' # r"
      by (simp add: is_ws_def)
    have sk: "skip_ws (c # cs @ CHR '']'' # r) = c # cs @ CHR '']'' # r"
      using c by (rule skip_ws_starts_value)
    have ne: "c \<noteq> CHR '']''"
      using c by (rule starts_value_simps)
    show ?thesis
      by (simp add: n map_stringify_jsonable [OF d] e o sk p ne del: skip_ws.simps)
  qed
next
  case (Obj kvs)
  from Obj.prems(2) obtain m where n: "n = Suc m"
    and m: "sum_list (map (\<lambda>kv. Suc (weight (snd kv))) kvs) \<le> m"
    by (cases n) auto
  have d: "\<forall>kv \<in> set kvs. snd kv \<noteq> Undefined"
    using Obj.prems(1) by (auto dest: jsonable_defined)
  show ?case
  proof (cases "kvs = []")
    case True
    then show ?thesis by (simp add: n is_ws_def)
  next
    case False
    obtain cs where e: "join_comma (map member_text kvs) = CHR 0x22 # cs"
      using members_start [OF False] by auto
    have IH: "\<And>kv n r. kv \<in> set kvs \<Longrightarrow> weight (snd kv) \<le> n \<Longrightarrow> ends_value r
                \<Longrightarrow> parse_value n (stringify (snd kv) @ r) = Some (snd kv, r)"
    proof -
      fix kv n r
      assume kv: "kv \<in> set kvs" and w: "weight (snd kv) \<le> n" and r: "ends_value r"
      have "snd kv \<in> Basic_BNFs.snds kv"
        by (cases kv) simp
      moreover have "jsonable (snd kv)"
        using Obj.prems(1) kv by simp
      ultimately show "parse_value n (stringify (snd kv) @ r) = Some (snd kv, r)"
        using kv w r by (intro Obj.IH)
    qed
    have "parse_members m (join_comma (map member_text kvs) @ CHR ''}'' # r) = Some (kvs, r)"
      using Obj.prems(1) False m by (intro parse_members_text IH) simp_all
    then have p: "parse_members m (CHR 0x22 # cs @ CHR ''}'' # r) = Some (kvs, r)"
      by (simp add: e)
    have t: "stringify (Obj kvs) = ''{'' @ join_comma (map member_text kvs) @ ''}''"
      unfolding stringify.simps members_jsonable [OF d] by (rule refl)
    show ?thesis
      unfolding t by (simp add: n is_ws_def e p)
  qed
qed

lemma length_join_comma:
  "ss \<noteq> [] \<Longrightarrow> Suc (length (join_comma ss)) = sum_list (map (\<lambda>s. Suc (length s)) ss)"
  by (induction ss rule: join_comma.induct) simp_all

lemma weight_le_length:
  assumes "jsonable v"
  shows "weight v \<le> length (stringify v)"
  using assms
proof (induction v)
  case (Num i)
  obtain c cs where "int_toString i = c # cs"
    using int_toString_start [of i] by auto
  then show ?case by simp
next
  case (Str s)
  then show ?case by (simp add: quote_def)
next
  case (Arr xs)
  have d: "\<forall>x \<in> set xs. x \<noteq> Undefined"
    using Arr.prems by (auto dest: jsonable_defined)
  show ?case
  proof (cases "xs = []")
    case True
    then show ?thesis by simp
  next
    case False
    have "sum_list (map (\<lambda>x. Suc (weight x)) xs)
            \<le> sum_list (map (\<lambda>x. Suc (length (stringify x))) xs)"
      using Arr.IH Arr.prems by (intro sum_list_mono) simp
    also have "\<dots> = Suc (length (join_comma (map stringify xs)))"
      using False by (simp add: length_join_comma comp_def)
    finally show ?thesis
      by (simp add: map_stringify_jsonable [OF d])
  qed
next
  case (Obj kvs)
  have d: "\<forall>kv \<in> set kvs. snd kv \<noteq> Undefined"
    using Obj.prems by (auto dest: jsonable_defined)
  have t: "stringify (Obj kvs) = ''{'' @ join_comma (map member_text kvs) @ ''}''"
    unfolding stringify.simps members_jsonable [OF d] by (rule refl)
  show ?case
  proof (cases "kvs = []")
    case True
    then show ?thesis by simp
  next
    case False
    have "weight (snd kv) \<le> length (member_text kv)" if "kv \<in> set kvs" for kv
    proof -
      have "snd kv \<in> Basic_BNFs.snds kv"
        by (cases kv) simp
      then have "weight (snd kv) \<le> length (stringify (snd kv))"
        using that Obj.prems by (intro Obj.IH) simp_all
      then show ?thesis by (simp add: member_text_def)
    qed
    then have "sum_list (map (\<lambda>kv. Suc (weight (snd kv))) kvs)
            \<le> sum_list (map (\<lambda>kv. Suc (length (member_text kv))) kvs)"
      by (intro sum_list_mono) simp
    also have "\<dots> = Suc (length (join_comma (map member_text kvs)))"
      using False by (simp add: length_join_comma comp_def)
    finally show ?thesis
      unfolding t by simp
  qed
qed simp_all

lemma parse_stringify:
  assumes "jsonable v"
  shows "parse (stringify v) = Some v"
proof -
  have "parse_value (Suc (length (stringify v))) (stringify v @ []) = Some (v, [])"
    using assms weight_le_length [OF assms] by (intro parse_value_stringify) simp_all
  then show ?thesis
    by (simp add: parse_def)
qed



lemma parse_chars_length:
  "parse_chars cs = Some (str, r) \<Longrightarrow> length str + length r < length cs"
proof (induction cs arbitrary: str r rule: length_induct)
  case (1 cs)
  note IH = "1.IH" [rule_format]
  show ?case
  proof (cases cs)
    case Nil
    then show ?thesis using "1.prems" by simp
  next
    case (Cons c cs')
    consider (quote) "c = CHR 0x22" | (esc) "c \<noteq> CHR 0x22" "c = CHR 0x5C"
      | (plain) "c \<noteq> CHR 0x22" "c \<noteq> CHR 0x5C"
      by blast
    then show ?thesis
    proof cases
      case quote
      then show ?thesis using "1.prems" Cons by simp
    next
      case plain
      then obtain str' where "parse_chars cs' = Some (str', r)" "str = c # str'"
        using "1.prems" Cons by (auto split: if_splits option.splits)
      then show ?thesis
        using IH [of cs' str' r] Cons by simp
    next
      case esc
      show ?thesis
      proof (cases cs')
        case Nil
        then show ?thesis using "1.prems" Cons esc by simp
      next
        case e: (Cons e es)
        show ?thesis
        proof (cases "e = CHR ''u''")
          case True
          then obtain a b c' d es' ch str' where
            "es = a # b # c' # d # es'" "parse_chars es' = Some (str', r)" "str = ch # str'"
            using "1.prems" Cons esc e by (auto split: list.splits option.splits)
          then show ?thesis
            using IH [of es' str' r] Cons e by simp
        next
          case False
          then obtain ch str' where "parse_chars es = Some (str', r)" "str = ch # str'"
            using "1.prems" Cons esc e by (auto split: option.splits)
          then show ?thesis
            using IH [of es str' r] Cons e by simp
        qed
      qed
    qed
  qed
qed

lemma length_skip_ws: "length (skip_ws s) \<le> length s"
  by (induction s) auto



lemma parse_digits_length: "parse_digits acc s = (n, r) \<Longrightarrow> length r \<le> length s"
  by (induction acc s arbitrary: n r rule: parse_digits.induct)
    (fastforce split: option.splits)+

lemma parse_nat_length: "parse_nat s = Some (n, r) \<Longrightarrow> length r < length s"
  by (auto simp: parse_nat_def less_Suc_eq_le split: list.splits option.splits if_splits
        dest: parse_digits_length)

lemma parse_int_length: "parse_int s = Some (i, r) \<Longrightarrow> length r < length s"
  by (auto simp: parse_int_def split: list.splits option.splits if_splits
        dest!: parse_nat_length)

text \<open>
  The bound on the nesting never decides a result: a text the parser reads with some bound it
  reads with every bound from the number of characters read, so \<open>parse\<close> fails only on
  a text that no bound reads.
\<close>

lemma fuel_intro:
  assumes sk: "skip_ws s = c # cs" and le: "length r \<le> length cs"
    and f: "\<And>k. length cs - length r \<le> k \<Longrightarrow> f (Suc k) = y"
  shows "length r < length s \<and> (\<forall>k\<ge>length s - length r. f k = y)"
proof -
  have l: "Suc (length cs) \<le> length s"
    using length_skip_ws [of s] by (simp add: sk del: skip_ws.simps)
  show ?thesis
  proof (intro conjI allI impI)
    show "length r < length s" using l le by simp
  next
    fix k assume k: "length s - length r \<le> k"
    then obtain k' where k': "k = Suc k'" using l le by (cases k) auto
    have "length cs - length r \<le> k'" using k k' l le by simp
    from f [OF this] show "f k = y" by (simp add: k')
  qed
qed

lemma value_step:
  assumes p: "parse_value (Suc n) s = Some (x, r)"
    and E: "\<And>cs xs r. parse_elements n cs = Some (xs, r) \<Longrightarrow>
              length r < length cs \<and> (\<forall>k\<ge>length cs - length r. parse_elements k cs = Some (xs, r))"
    and M: "\<And>cs kvs r. parse_members n cs = Some (kvs, r) \<Longrightarrow>
              length r < length cs \<and> (\<forall>k\<ge>length cs - length r. parse_members k cs = Some (kvs, r))"
  shows "length r < length s \<and> (\<forall>k\<ge>length s - length r. parse_value k s = Some (x, r))"
proof -
  obtain c cs where sk: "skip_ws s = c # cs"
    using p by (cases "skip_ws s") (simp_all del: skip_ws.simps)
  have "length r \<le> length cs \<and> (\<forall>k\<ge>length cs - length r. parse_value (Suc k) s = Some (x, r))"
  proof -
    consider (lit) "c = CHR ''n'' \<or> c = CHR ''t'' \<or> c = CHR ''f''"
      | (str) "c = CHR 0x22" | (arr) "c = CHR ''[''" | (obj) "c = CHR ''{''"
      | (num) "c \<noteq> CHR ''n''" "c \<noteq> CHR ''t''" "c \<noteq> CHR ''f''" "c \<noteq> CHR 0x22"
          "c \<noteq> CHR ''[''" "c \<noteq> CHR ''{''"
      by blast
    then show ?thesis
    proof cases
      case lit
      then show ?thesis
        using p sk by (auto simp del: skip_ws.simps split: if_splits)
    next
      case str
      have u: "parse_value (Suc j) s =
          (case parse_chars cs of None \<Rightarrow> None | Some (str, r) \<Rightarrow> Some (Str str, r))" for j
        using sk str by (simp del: skip_ws.simps)
      from p obtain t where "parse_chars cs = Some (t, r)"
        unfolding u by (auto split: option.splits)
      from parse_chars_length [OF this] show ?thesis
        using p unfolding u by simp
    next
      case num
      have u: "parse_value (Suc j) s =
          (case parse_int (c # cs) of None \<Rightarrow> None | Some (i, r) \<Rightarrow> Some (Num i, r))" for j
        using sk num by (simp del: skip_ws.simps)
      from p obtain i where "parse_int (c # cs) = Some (i, r)"
        unfolding u by (auto split: option.splits)
      from parse_int_length [OF this] show ?thesis
        using p unfolding u by simp
    next
      case arr
      obtain d ds where sk2: "skip_ws cs = d # ds"
        using p sk arr by (cases "skip_ws cs") (simp_all del: skip_ws.simps)
      have l2: "Suc (length ds) \<le> length cs"
        using length_skip_ws [of cs] by (simp add: sk2 del: skip_ws.simps)
      have u: "parse_value (Suc j) s =
          (if d = CHR '']'' then Some (Arr [], ds)
           else (case parse_elements j cs of None \<Rightarrow> None | Some (xs, r) \<Rightarrow> Some (Arr xs, r)))" for j
        using sk sk2 arr by (simp del: skip_ws.simps)
      show ?thesis
      proof (cases "d = CHR '']''")
        case True
        then show ?thesis using p l2 unfolding u by auto
      next
        case False
        from p obtain xs where e: "parse_elements n cs = Some (xs, r)" and x: "x = Arr xs"
          unfolding u using False by (auto split: option.splits)
        from E [OF e] show ?thesis
          unfolding u using False x by simp
      qed
    next
      case obj
      obtain d ds where sk2: "skip_ws cs = d # ds"
        using p sk obj by (cases "skip_ws cs") (simp_all del: skip_ws.simps)
      have l2: "Suc (length ds) \<le> length cs"
        using length_skip_ws [of cs] by (simp add: sk2 del: skip_ws.simps)
      have u: "parse_value (Suc j) s =
          (if d = CHR ''}'' then Some (Obj [], ds)
           else (case parse_members j cs of None \<Rightarrow> None | Some (kvs, r) \<Rightarrow> Some (Obj kvs, r)))" for j
        using sk sk2 obj by (simp del: skip_ws.simps)
      show ?thesis
      proof (cases "d = CHR ''}''")
        case True
        then show ?thesis using p l2 unfolding u by auto
      next
        case False
        from p obtain kvs where e: "parse_members n cs = Some (kvs, r)" and x: "x = Obj kvs"
          unfolding u using False by (auto split: option.splits)
        from M [OF e] show ?thesis
          unfolding u using False x by simp
      qed
    qed
  qed
  then show ?thesis
    by (intro fuel_intro [OF sk]) simp_all
qed

lemma elements_step:
  assumes p: "parse_elements (Suc n) s = Some (xs, r)"
    and V: "\<And>cs x r. parse_value n cs = Some (x, r) \<Longrightarrow>
              length r < length cs \<and> (\<forall>k\<ge>length cs - length r. parse_value k cs = Some (x, r))"
    and E: "\<And>cs xs r. parse_elements n cs = Some (xs, r) \<Longrightarrow>
              length r < length cs \<and> (\<forall>k\<ge>length cs - length r. parse_elements k cs = Some (xs, r))"
  shows "length r < length s \<and> (\<forall>k\<ge>length s - length r. parse_elements k s = Some (xs, r))"
proof -
  obtain x r1 where v: "parse_value n s = Some (x, r1)"
    using p by (cases "parse_value n s") auto
  obtain c r2 where sk: "skip_ws r1 = c # r2"
    using p v by (cases "skip_ws r1") (simp_all del: skip_ws.simps)
  have l1: "length r1 < length s"
    and f1: "\<And>k. length s - length r1 \<le> k \<Longrightarrow> parse_value k s = Some (x, r1)"
    using V [OF v] by simp_all
  have l2: "Suc (length r2) \<le> length r1"
    using length_skip_ws [of r1] by (simp add: sk del: skip_ws.simps)
  have u: "parse_elements (Suc j) s =
      (if c = CHR '','' then
         (case parse_elements j r2 of None \<Rightarrow> None | Some (xs, r'') \<Rightarrow> Some (x # xs, r''))
       else if c = CHR '']'' then Some ([x], r2) else None)"
    if "parse_value j s = Some (x, r1)" for j
    using that sk by (simp del: skip_ws.simps)
  have "length r < length s \<and> (\<forall>k\<ge>length s - Suc (length r). parse_elements (Suc k) s = Some (xs, r))"
  proof (cases "c = CHR '',''")
    case True
    from p obtain ys where e: "parse_elements n r2 = Some (ys, r)" and xs: "xs = x # ys"
      unfolding u [OF v] using True by (auto split: option.splits)
    have l3: "length r < length r2"
      and f3: "\<And>k. length r2 - length r \<le> k \<Longrightarrow> parse_elements k r2 = Some (ys, r)"
      using E [OF e] by simp_all
    show ?thesis
    proof (intro conjI allI impI)
      show "length r < length s" using l1 l2 l3 by simp
    next
      fix k assume k: "length s - Suc (length r) \<le> k"
      have 1: "parse_value k s = Some (x, r1)" using k l1 l2 l3 by (intro f1) simp
      have 2: "parse_elements k r2 = Some (ys, r)" using k l1 l2 l3 by (intro f3) simp
      show "parse_elements (Suc k) s = Some (xs, r)"
        unfolding u [OF 1] using True 2 xs by simp
    qed
  next
    case False
    from p have c: "c = CHR '']''" and xs: "xs = [x]" and r: "r = r2"
      unfolding u [OF v] using False by (auto split: if_splits)
    show ?thesis
    proof (intro conjI allI impI)
      show "length r < length s" using l1 l2 r by simp
    next
      fix k assume k: "length s - Suc (length r) \<le> k"
      have 1: "parse_value k s = Some (x, r1)" using k l1 l2 r by (intro f1) simp
      show "parse_elements (Suc k) s = Some (xs, r)"
        unfolding u [OF 1] using c xs r by simp
    qed
  qed
  then show ?thesis
  proof (intro conjI allI impI)
    fix k assume a: "length r < length s \<and> (\<forall>k\<ge>length s - Suc (length r). parse_elements (Suc k) s = Some (xs, r))"
      and k: "length s - length r \<le> k"
    then obtain k' where k': "k = Suc k'" by (cases k) auto
    show "parse_elements k s = Some (xs, r)"
      using a k unfolding k' by auto
  qed simp
qed

lemma members_step:
  assumes p: "parse_members (Suc n) s = Some (kvs, r)"
    and V: "\<And>cs x r. parse_value n cs = Some (x, r) \<Longrightarrow>
              length r < length cs \<and> (\<forall>k\<ge>length cs - length r. parse_value k cs = Some (x, r))"
    and M: "\<And>cs kvs r. parse_members n cs = Some (kvs, r) \<Longrightarrow>
              length r < length cs \<and> (\<forall>k\<ge>length cs - length r. parse_members k cs = Some (kvs, r))"
  shows "length r < length s \<and> (\<forall>k\<ge>length s - length r. parse_members k s = Some (kvs, r))"
proof -
  obtain q s1 where sk0: "skip_ws s = q # s1"
    using p by (cases "skip_ws s") (simp_all del: skip_ws.simps)
  have q: "q = CHR 0x22"
    using p sk0 by (simp del: skip_ws.simps split: if_splits)
  obtain key s2 where pc: "parse_chars s1 = Some (key, s2)"
    using p sk0 q by (cases "parse_chars s1") (auto simp del: skip_ws.simps)
  obtain colon s3 where sk1: "skip_ws s2 = colon # s3"
    using p sk0 q pc by (cases "skip_ws s2") (simp_all del: skip_ws.simps)
  have colon: "colon = CHR '':''"
    using p sk0 q pc sk1 by (simp del: skip_ws.simps split: if_splits)
  obtain v r1 where v: "parse_value n s3 = Some (v, r1)"
    using p sk0 q pc sk1 colon by (cases "parse_value n s3") (auto simp del: skip_ws.simps)
  obtain c r2 where sk: "skip_ws r1 = c # r2"
    using p sk0 q pc sk1 colon v by (cases "skip_ws r1") (simp_all del: skip_ws.simps)
  have l0: "Suc (length s1) \<le> length s"
    using length_skip_ws [of s] by (simp add: sk0 del: skip_ws.simps)
  have lc: "length s2 < length s1"
    using parse_chars_length [OF pc] by simp
  have ls: "Suc (length s3) \<le> length s2"
    using length_skip_ws [of s2] by (simp add: sk1 del: skip_ws.simps)
  have l1: "length r1 < length s3"
    and f1: "\<And>k. length s3 - length r1 \<le> k \<Longrightarrow> parse_value k s3 = Some (v, r1)"
    using V [OF v] by simp_all
  have l2: "Suc (length r2) \<le> length r1"
    using length_skip_ws [of r1] by (simp add: sk del: skip_ws.simps)
  have u: "parse_members (Suc j) s =
      (if c = CHR '','' then
         (case parse_members j r2 of None \<Rightarrow> None | Some (kvs, r'') \<Rightarrow> Some (add_member key v kvs, r''))
       else if c = CHR ''}'' then Some ([(key, v)], r2) else None)"
    if "parse_value j s3 = Some (v, r1)" for j
    using that sk0 q pc sk1 colon sk by (simp del: skip_ws.simps)
  have "length r < length s \<and> (\<forall>k\<ge>length s - Suc (length r). parse_members (Suc k) s = Some (kvs, r))"
  proof (cases "c = CHR '',''")
    case True
    from p obtain ys where e: "parse_members n r2 = Some (ys, r)" and kvs: "kvs = add_member key v ys"
      unfolding u [OF v] using True by (auto split: option.splits)
    have l3: "length r < length r2"
      and f3: "\<And>k. length r2 - length r \<le> k \<Longrightarrow> parse_members k r2 = Some (ys, r)"
      using M [OF e] by simp_all
    show ?thesis
    proof (intro conjI allI impI)
      show "length r < length s" using l0 lc ls l1 l2 l3 by simp
    next
      fix k assume k: "length s - Suc (length r) \<le> k"
      have 1: "parse_value k s3 = Some (v, r1)" using k l0 lc ls l1 l2 l3 by (intro f1) simp
      have 2: "parse_members k r2 = Some (ys, r)" using k l0 lc ls l1 l2 l3 by (intro f3) simp
      show "parse_members (Suc k) s = Some (kvs, r)"
        unfolding u [OF 1] using True 2 kvs by simp
    qed
  next
    case False
    from p have c: "c = CHR ''}''" and kvs: "kvs = [(key, v)]" and r: "r = r2"
      unfolding u [OF v] using False by (auto split: if_splits)
    show ?thesis
    proof (intro conjI allI impI)
      show "length r < length s" using l0 lc ls l1 l2 r by simp
    next
      fix k assume k: "length s - Suc (length r) \<le> k"
      have 1: "parse_value k s3 = Some (v, r1)" using k l0 lc ls l1 l2 r by (intro f1) simp
      show "parse_members (Suc k) s = Some (kvs, r)"
        unfolding u [OF 1] using c kvs r by simp
    qed
  qed
  then show ?thesis
  proof (intro conjI allI impI)
    fix k assume a: "length r < length s \<and> (\<forall>k\<ge>length s - Suc (length r). parse_members (Suc k) s = Some (kvs, r))"
      and k: "length s - length r \<le> k"
    then obtain k' where k': "k = Suc k'" by (cases k) auto
    show "parse_members k s = Some (kvs, r)"
      using a k unfolding k' by auto
  qed simp
qed

lemma parse_fuel:
  "(\<forall>s x r. parse_value n s = Some (x, r) \<longrightarrow>
      length r < length s \<and> (\<forall>k\<ge>length s - length r. parse_value k s = Some (x, r))) \<and>
   (\<forall>s xs r. parse_elements n s = Some (xs, r) \<longrightarrow>
      length r < length s \<and> (\<forall>k\<ge>length s - length r. parse_elements k s = Some (xs, r))) \<and>
   (\<forall>s kvs r. parse_members n s = Some (kvs, r) \<longrightarrow>
      length r < length s \<and> (\<forall>k\<ge>length s - length r. parse_members k s = Some (kvs, r)))"
proof (induction n)
  case 0
  show ?case by simp
next
  case (Suc n)
  note V = Suc.IH [THEN conjunct1, rule_format]
  note E = Suc.IH [THEN conjunct2, THEN conjunct1, rule_format]
  note M = Suc.IH [THEN conjunct2, THEN conjunct2, rule_format]
  show ?case
  proof (intro conjI)
    show "\<forall>s x r. parse_value (Suc n) s = Some (x, r) \<longrightarrow>
      length r < length s \<and> (\<forall>k\<ge>length s - length r. parse_value k s = Some (x, r))"
    proof (intro allI impI)
      fix s x r assume "parse_value (Suc n) s = Some (x, r)"
      then show "length r < length s \<and> (\<forall>k\<ge>length s - length r. parse_value k s = Some (x, r))"
        by (rule value_step) (erule E M)+
    qed
  next
    show "\<forall>s xs r. parse_elements (Suc n) s = Some (xs, r) \<longrightarrow>
      length r < length s \<and> (\<forall>k\<ge>length s - length r. parse_elements k s = Some (xs, r))"
    proof (intro allI impI)
      fix s xs r assume "parse_elements (Suc n) s = Some (xs, r)"
      then show "length r < length s \<and> (\<forall>k\<ge>length s - length r. parse_elements k s = Some (xs, r))"
        by (rule elements_step) (erule V E)+
    qed
  next
    show "\<forall>s kvs r. parse_members (Suc n) s = Some (kvs, r) \<longrightarrow>
      length r < length s \<and> (\<forall>k\<ge>length s - length r. parse_members k s = Some (kvs, r))"
    proof (intro allI impI)
      fix s kvs r assume "parse_members (Suc n) s = Some (kvs, r)"
      then show "length r < length s \<and> (\<forall>k\<ge>length s - length r. parse_members k s = Some (kvs, r))"
        by (rule members_step) (erule V M)+
    qed
  qed
qed

lemma parse_value_fuel:
  assumes "parse_value n s = Some (x, r)"
  shows "parse_value (Suc (length s)) s = Some (x, r)"
  using parse_fuel [of n, THEN conjunct1, rule_format, OF assms]
  by (simp del: parse_value.simps)

lemma parse_fuel_enough:
  "parse s = Some v \<longleftrightarrow> (\<exists>n r. parse_value n s = Some (v, r) \<and> skip_ws r = [])"
proof
  assume "parse s = Some v"
  then obtain r where "parse_value (Suc (length s)) s = Some (v, r)" and "skip_ws r = []"
    unfolding parse_def by (auto split: option.splits if_splits simp del: parse_value.simps)
  then show "\<exists>n r. parse_value n s = Some (v, r) \<and> skip_ws r = []"
    by blast
next
  assume "\<exists>n r. parse_value n s = Some (v, r) \<and> skip_ws r = []"
  then obtain n r where "parse_value n s = Some (v, r)" and r: "skip_ws r = []" by blast
  from parse_value_fuel [OF this(1)] r show "parse s = Some v"
    unfolding parse_def by (simp del: parse_value.simps)
qed

subsection \<open>The reference host and the JSON grammar\<close>

text \<open>
  Every text that \<open>parse\<close> reads is a JSON text, and the recogniser of the grammar needs
  no more nesting than the text has characters. So \<open>parse s = None\<close> on a text that is
  not JSON, where \<^verbatim>\<open>JSON.parse\<close> throws, and on a JSON text outside the model, of
  which \<open>1.5\<close> and \<open>1e3\<close> are two.
\<close>

lemma number_ends_skip_ws: "number_ends (skip_ws r) \<Longrightarrow> number_ends r"
  by (cases r) (auto simp add: number_ends_def is_ws_def)

lemma number_ends_separator:
  assumes "skip_ws r = c # r'" "c = CHR '','' \<or> c = CHR '']'' \<or> c = CHR ''}''"
  shows "number_ends r"
proof (rule number_ends_skip_ws)
  show "number_ends (skip_ws r)"
    using assms by (auto simp add: number_ends_def)
qed

lemma json_number_int:
  "parse_int s = Some (i, r) \<Longrightarrow> number_ends r \<Longrightarrow> json_number s = Some r"
  by (auto simp add: json_number_def json_frac_def json_exp_def number_ends_def
      split: list.splits)

lemma hex4_Some:
  "hex4 a b c d = Some ch \<Longrightarrow>
     hex_val a \<noteq> None \<and> hex_val b \<noteq> None \<and> hex_val c \<noteq> None \<and> hex_val d \<noteq> None"
  by (auto simp add: hex4_def split: option.splits)

lemma json_chars_parse:
  "parse_chars cs = Some (str, r) \<Longrightarrow> json_chars cs = Some r"
proof (induction cs arbitrary: str r rule: length_induct)
  case (1 cs)
  note IH = "1.IH" [rule_format]
  show ?case
  proof (cases cs)
    case Nil
    then show ?thesis using "1.prems" by simp
  next
    case (Cons c cs')
    consider (quote) "c = CHR 0x22" | (esc) "c \<noteq> CHR 0x22" "c = CHR 0x5C"
      | (plain) "c \<noteq> CHR 0x22" "c \<noteq> CHR 0x5C"
      by blast
    then show ?thesis
    proof cases
      case quote
      then show ?thesis using "1.prems" Cons by simp
    next
      case plain
      then obtain str' where p: "parse_chars cs' = Some (str', r)" and c: "\<not> (of_char c :: nat) < 32"
        using "1.prems" Cons by (auto split: if_splits option.splits)
      have "json_chars cs' = Some r"
        using IH [of cs' str' r] p Cons by simp
      then show ?thesis
        using plain c Cons by simp
    next
      case esc
      show ?thesis
      proof (cases cs')
        case Nil
        then show ?thesis using "1.prems" Cons esc by simp
      next
        case e: (Cons e es)
        show ?thesis
        proof (cases "e = CHR ''u''")
          case True
          then obtain a b c' d es' ch str' where es: "es = a # b # c' # d # es'"
            and h: "hex4 a b c' d = Some ch" and p: "parse_chars es' = Some (str', r)"
            using "1.prems" Cons esc e by (auto split: list.splits option.splits)
          have "json_chars es' = Some r"
            using IH [of es' str' r] p Cons e es by simp
          then show ?thesis
            using hex4_Some [OF h] Cons esc e True es by simp
        next
          case False
          then obtain ch str' where u: "unescape e = Some ch" and p: "parse_chars es = Some (str', r)"
            using "1.prems" Cons esc e by (auto split: option.splits)
          have "json_chars es = Some r"
            using IH [of es str' r] p Cons e by simp
          then show ?thesis
            using u Cons esc e False by simp
        qed
      qed
    qed
  qed
qed

lemma json_of_parse:
  "(\<forall>s x r. parse_value n s = Some (x, r) \<longrightarrow> number_ends r \<longrightarrow> json_value n s = Some r) \<and>
   (\<forall>s xs r. parse_elements n s = Some (xs, r) \<longrightarrow> json_elements n s = Some r) \<and>
   (\<forall>s kvs r. parse_members n s = Some (kvs, r) \<longrightarrow> json_members n s = Some r)"
proof (induction n)
  case 0
  show ?case by simp
next
  case (Suc n)
  note V = Suc.IH [THEN conjunct1, rule_format]
  note E = Suc.IH [THEN conjunct2, THEN conjunct1, rule_format]
  note M = Suc.IH [THEN conjunct2, THEN conjunct2, rule_format]
  show ?case
  proof (intro conjI allI impI)
    fix s x r assume p: "parse_value (Suc n) s = Some (x, r)" and ne: "number_ends r"
    obtain c cs where sk: "skip_ws s = c # cs"
      using p by (cases "skip_ws s") (simp_all del: skip_ws.simps)
    consider (lit) "c = CHR ''n'' \<or> c = CHR ''t'' \<or> c = CHR ''f''"
      | (str) "c = CHR 0x22" | (arr) "c = CHR ''[''" | (obj) "c = CHR ''{''"
      | (num) "c \<noteq> CHR ''n''" "c \<noteq> CHR ''t''" "c \<noteq> CHR ''f''" "c \<noteq> CHR 0x22"
          "c \<noteq> CHR ''[''" "c \<noteq> CHR ''{''"
      by blast
    then show "json_value (Suc n) s = Some r"
    proof cases
      case lit
      then show ?thesis
        using p sk by (auto simp del: skip_ws.simps split: if_splits)
    next
      case str
      then obtain t where "parse_chars cs = Some (t, r)"
        using p sk by (auto simp del: skip_ws.simps split: option.splits)
      from json_chars_parse [OF this] show ?thesis
        using sk str by (simp del: skip_ws.simps)
    next
      case num
      then obtain i where "parse_int (c # cs) = Some (i, r)"
        using p sk by (auto simp del: skip_ws.simps split: option.splits)
      from json_number_int [OF this ne] show ?thesis
        using sk num by (simp del: skip_ws.simps)
    next
      case arr
      obtain d ds where sk2: "skip_ws cs = d # ds"
        using p sk arr by (cases "skip_ws cs") (simp_all del: skip_ws.simps)
      show ?thesis
      proof (cases "d = CHR '']''")
        case True
        then show ?thesis using p sk sk2 arr by (auto simp del: skip_ws.simps)
      next
        case False
        then obtain xs where "parse_elements n cs = Some (xs, r)"
          using p sk sk2 arr by (auto simp del: skip_ws.simps split: option.splits)
        from E [OF this] show ?thesis
          using sk sk2 arr False by (simp del: skip_ws.simps)
      qed
    next
      case obj
      obtain d ds where sk2: "skip_ws cs = d # ds"
        using p sk obj by (cases "skip_ws cs") (simp_all del: skip_ws.simps)
      show ?thesis
      proof (cases "d = CHR ''}''")
        case True
        then show ?thesis using p sk sk2 obj by (auto simp del: skip_ws.simps)
      next
        case False
        then obtain kvs where "parse_members n cs = Some (kvs, r)"
          using p sk sk2 obj by (auto simp del: skip_ws.simps split: option.splits)
        from M [OF this] show ?thesis
          using sk sk2 obj False by (simp del: skip_ws.simps)
      qed
    qed
  next
    fix s xs r assume p: "parse_elements (Suc n) s = Some (xs, r)"
    obtain x r1 where v: "parse_value n s = Some (x, r1)"
      using p by (cases "parse_value n s") auto
    obtain c r2 where sk: "skip_ws r1 = c # r2"
      using p v by (cases "skip_ws r1") (simp_all del: skip_ws.simps)
    have c: "c = CHR '','' \<or> c = CHR '']''"
      using p v sk by (simp del: skip_ws.simps split: if_splits)
    have j: "json_value n s = Some r1"
      using v c by (intro V number_ends_separator [OF sk]) auto
    show "json_elements (Suc n) s = Some r"
    proof (cases "c = CHR '',''")
      case True
      then obtain ys where "parse_elements n r2 = Some (ys, r)"
        using p v sk by (auto simp del: skip_ws.simps split: option.splits)
      from E [OF this] show ?thesis
        using j sk True by (simp del: skip_ws.simps)
    next
      case False
      then show ?thesis
        using p v sk c j by (auto simp del: skip_ws.simps)
    qed
  next
    fix s kvs r assume p: "parse_members (Suc n) s = Some (kvs, r)"
    obtain q s1 where sk0: "skip_ws s = q # s1"
      using p by (cases "skip_ws s") (simp_all del: skip_ws.simps)
    have q: "q = CHR 0x22"
      using p sk0 by (simp del: skip_ws.simps split: if_splits)
    obtain key s2 where pc: "parse_chars s1 = Some (key, s2)"
      using p sk0 q by (cases "parse_chars s1") (auto simp del: skip_ws.simps)
    obtain colon s3 where sk1: "skip_ws s2 = colon # s3"
      using p sk0 q pc by (cases "skip_ws s2") (simp_all del: skip_ws.simps)
    have colon: "colon = CHR '':''"
      using p sk0 q pc sk1 by (simp del: skip_ws.simps split: if_splits)
    obtain v r1 where v: "parse_value n s3 = Some (v, r1)"
      using p sk0 q pc sk1 colon by (cases "parse_value n s3") (auto simp del: skip_ws.simps)
    obtain c r2 where sk: "skip_ws r1 = c # r2"
      using p sk0 q pc sk1 colon v by (cases "skip_ws r1") (simp_all del: skip_ws.simps)
    have c: "c = CHR '','' \<or> c = CHR ''}''"
      using p sk0 q pc sk1 colon v sk by (simp del: skip_ws.simps split: if_splits)
    have j: "json_value n s3 = Some r1"
      using v c by (intro V number_ends_separator [OF sk]) auto
    have u: "json_members (Suc n) s =
        (if c = CHR '','' then json_members n r2 else if c = CHR ''}'' then Some r2 else None)"
      using sk0 q json_chars_parse [OF pc] sk1 colon j sk by (simp del: skip_ws.simps)
    show "json_members (Suc n) s = Some r"
    proof (cases "c = CHR '',''")
      case True
      then obtain ys where "parse_members n r2 = Some (ys, r)"
        using p sk0 q pc sk1 colon v sk by (auto simp del: skip_ws.simps split: option.splits)
      from M [OF this] show ?thesis
        unfolding u using True by simp
    next
      case False
      then have "r = r2"
        using p sk0 q pc sk1 colon v sk c by (auto simp del: skip_ws.simps)
      then show ?thesis
        unfolding u using False c by simp
    qed
  qed
qed

lemma json_text_parse:
  assumes "parse s = Some v"
  shows "json_text s"
proof -
  obtain r where p: "parse_value (Suc (length s)) s = Some (v, r)" and r: "skip_ws r = []"
    using assms unfolding parse_def
    by (auto split: option.splits if_splits simp del: parse_value.simps)
  have "number_ends r"
    by (rule number_ends_skip_ws) (simp add: r number_ends_def)
  from json_of_parse [of "Suc (length s)", THEN conjunct1, rule_format, OF p this] r
  show ?thesis
    unfolding json_text_def by (simp del: json_value.simps)
qed

lemma length_skip_digits: "length (skip_digits s) \<le> length s"
  by (induction s) (auto split: option.splits)

lemma json_digits_length: "json_digits s = Some r \<Longrightarrow> length r < length s"
  using length_skip_digits
  by (auto simp add: json_digits_def less_Suc_eq_le split: list.splits option.splits)

lemma json_frac_length: "json_frac s = Some r \<Longrightarrow> length r \<le> length s"
  by (auto simp add: json_frac_def split: list.splits if_splits dest!: json_digits_length)

lemma json_exp_length: "json_exp s = Some r \<Longrightarrow> length r \<le> length s"
  by (auto simp add: json_exp_def split: list.splits if_splits dest!: json_digits_length)

lemma json_number_length:
  assumes "json_number s = Some r"
  shows "length r < length s"
proof -
  obtain i r1 r2 where "parse_int s = Some (i, r1)" "json_frac r1 = Some r2" "json_exp r2 = Some r"
    using assms by (auto simp add: json_number_def split: option.splits)
  then show ?thesis
    using parse_int_length [of s i r1] json_frac_length [of r1 r2] json_exp_length [of r2 r]
    by simp
qed

lemma json_chars_length: "json_chars cs = Some r \<Longrightarrow> length r < length cs"
proof (induction cs arbitrary: r rule: length_induct)
  case (1 cs)
  note IH = "1.IH" [rule_format]
  show ?case
  proof (cases cs)
    case Nil
    then show ?thesis using "1.prems" by simp
  next
    case (Cons c cs')
    consider (quote) "c = CHR 0x22" | (esc) "c \<noteq> CHR 0x22" "c = CHR 0x5C"
      | (plain) "c \<noteq> CHR 0x22" "c \<noteq> CHR 0x5C"
      by blast
    then show ?thesis
    proof cases
      case quote
      then show ?thesis using "1.prems" Cons by simp
    next
      case plain
      then have "json_chars cs' = Some r"
        using "1.prems" Cons by (auto split: if_splits)
      then show ?thesis
        using IH [of cs' r] Cons by simp
    next
      case esc
      show ?thesis
      proof (cases cs')
        case Nil
        then show ?thesis using "1.prems" Cons esc by simp
      next
        case e: (Cons e es)
        show ?thesis
        proof (cases "e = CHR ''u''")
          case True
          then obtain a b c' d es' where "es = a # b # c' # d # es'" "json_chars es' = Some r"
            using "1.prems" Cons esc e by (auto split: list.splits if_splits)
          then show ?thesis
            using IH [of es' r] Cons e by simp
        next
          case False
          then have "json_chars es = Some r"
            using "1.prems" Cons esc e by (auto split: option.splits)
          then show ?thesis
            using IH [of es r] Cons e by simp
        qed
      qed
    qed
  qed
qed

lemma json_value_step:
  assumes p: "json_value (Suc n) s = Some r"
    and E: "\<And>cs r. json_elements n cs = Some r \<Longrightarrow>
              length r < length cs \<and> (\<forall>k\<ge>length cs - length r. json_elements k cs = Some r)"
    and M: "\<And>cs r. json_members n cs = Some r \<Longrightarrow>
              length r < length cs \<and> (\<forall>k\<ge>length cs - length r. json_members k cs = Some r)"
  shows "length r < length s \<and> (\<forall>k\<ge>length s - length r. json_value k s = Some r)"
proof -
  obtain c cs where sk: "skip_ws s = c # cs"
    using p by (cases "skip_ws s") (simp_all del: skip_ws.simps)
  have "length r \<le> length cs \<and> (\<forall>k\<ge>length cs - length r. json_value (Suc k) s = Some r)"
  proof -
    consider (lit) "c = CHR ''n'' \<or> c = CHR ''t'' \<or> c = CHR ''f''"
      | (str) "c = CHR 0x22" | (arr) "c = CHR ''[''" | (obj) "c = CHR ''{''"
      | (num) "c \<noteq> CHR ''n''" "c \<noteq> CHR ''t''" "c \<noteq> CHR ''f''" "c \<noteq> CHR 0x22"
          "c \<noteq> CHR ''[''" "c \<noteq> CHR ''{''"
      by blast
    then show ?thesis
    proof cases
      case lit
      then show ?thesis
        using p sk by (auto simp del: skip_ws.simps split: if_splits)
    next
      case str
      have u: "json_value (Suc j) s = json_chars cs" for j
        using sk str by (simp del: skip_ws.simps)
      from p have "json_chars cs = Some r"
        unfolding u .
      from json_chars_length [OF this] this show ?thesis
        unfolding u by simp
    next
      case num
      have u: "json_value (Suc j) s = json_number (c # cs)" for j
        using sk num by (simp del: skip_ws.simps)
      from p have "json_number (c # cs) = Some r"
        unfolding u .
      from json_number_length [OF this] this show ?thesis
        unfolding u by simp
    next
      case arr
      obtain d ds where sk2: "skip_ws cs = d # ds"
        using p sk arr by (cases "skip_ws cs") (simp_all del: skip_ws.simps)
      have l2: "Suc (length ds) \<le> length cs"
        using length_skip_ws [of cs] by (simp add: sk2 del: skip_ws.simps)
      have u: "json_value (Suc j) s =
          (if d = CHR '']'' then Some ds else json_elements j cs)" for j
        using sk sk2 arr by (simp del: skip_ws.simps)
      show ?thesis
      proof (cases "d = CHR '']''")
        case True
        then show ?thesis using p l2 unfolding u by auto
      next
        case False
        from p have e: "json_elements n cs = Some r"
          unfolding u using False by simp
        from E [OF e] show ?thesis
          unfolding u using False by simp
      qed
    next
      case obj
      obtain d ds where sk2: "skip_ws cs = d # ds"
        using p sk obj by (cases "skip_ws cs") (simp_all del: skip_ws.simps)
      have l2: "Suc (length ds) \<le> length cs"
        using length_skip_ws [of cs] by (simp add: sk2 del: skip_ws.simps)
      have u: "json_value (Suc j) s =
          (if d = CHR ''}'' then Some ds else json_members j cs)" for j
        using sk sk2 obj by (simp del: skip_ws.simps)
      show ?thesis
      proof (cases "d = CHR ''}''")
        case True
        then show ?thesis using p l2 unfolding u by auto
      next
        case False
        from p have e: "json_members n cs = Some r"
          unfolding u using False by simp
        from M [OF e] show ?thesis
          unfolding u using False by simp
      qed
    qed
  qed
  then show ?thesis
    by (intro fuel_intro [OF sk]) simp_all
qed

lemma json_elements_step:
  assumes p: "json_elements (Suc n) s = Some r"
    and V: "\<And>cs r. json_value n cs = Some r \<Longrightarrow>
              length r < length cs \<and> (\<forall>k\<ge>length cs - length r. json_value k cs = Some r)"
    and E: "\<And>cs r. json_elements n cs = Some r \<Longrightarrow>
              length r < length cs \<and> (\<forall>k\<ge>length cs - length r. json_elements k cs = Some r)"
  shows "length r < length s \<and> (\<forall>k\<ge>length s - length r. json_elements k s = Some r)"
proof -
  obtain r1 where v: "json_value n s = Some r1"
    using p by (cases "json_value n s") auto
  obtain c r2 where sk: "skip_ws r1 = c # r2"
    using p v by (cases "skip_ws r1") (simp_all del: skip_ws.simps)
  have l1: "length r1 < length s"
    and f1: "\<And>k. length s - length r1 \<le> k \<Longrightarrow> json_value k s = Some r1"
    using V [OF v] by simp_all
  have l2: "Suc (length r2) \<le> length r1"
    using length_skip_ws [of r1] by (simp add: sk del: skip_ws.simps)
  have u: "json_elements (Suc j) s =
      (if c = CHR '','' then json_elements j r2
       else if c = CHR '']'' then Some r2 else None)"
    if "json_value j s = Some r1" for j
    using that sk by (simp del: skip_ws.simps)
  have "length r < length s \<and> (\<forall>k\<ge>length s - Suc (length r). json_elements (Suc k) s = Some r)"
  proof (cases "c = CHR '',''")
    case True
    from p have e: "json_elements n r2 = Some r"
      unfolding u [OF v] using True by simp
    have l3: "length r < length r2"
      and f3: "\<And>k. length r2 - length r \<le> k \<Longrightarrow> json_elements k r2 = Some r"
      using E [OF e] by simp_all
    show ?thesis
    proof (intro conjI allI impI)
      show "length r < length s" using l1 l2 l3 by simp
    next
      fix k assume k: "length s - Suc (length r) \<le> k"
      have 1: "json_value k s = Some r1" using k l1 l2 l3 by (intro f1) simp
      have 2: "json_elements k r2 = Some r" using k l1 l2 l3 by (intro f3) simp
      show "json_elements (Suc k) s = Some r"
        unfolding u [OF 1] using True 2 by simp
    qed
  next
    case False
    from p have c: "c = CHR '']''" and r: "r = r2"
      unfolding u [OF v] using False by (auto split: if_splits)
    show ?thesis
    proof (intro conjI allI impI)
      show "length r < length s" using l1 l2 r by simp
    next
      fix k assume k: "length s - Suc (length r) \<le> k"
      have 1: "json_value k s = Some r1" using k l1 l2 r by (intro f1) simp
      show "json_elements (Suc k) s = Some r"
        unfolding u [OF 1] using c r by simp
    qed
  qed
  then show ?thesis
  proof (intro conjI allI impI)
    fix k assume a: "length r < length s \<and> (\<forall>k\<ge>length s - Suc (length r). json_elements (Suc k) s = Some r)"
      and k: "length s - length r \<le> k"
    then obtain k' where k': "k = Suc k'" by (cases k) auto
    show "json_elements k s = Some r"
      using a k unfolding k' by auto
  qed simp
qed

lemma json_members_step:
  assumes p: "json_members (Suc n) s = Some r"
    and V: "\<And>cs r. json_value n cs = Some r \<Longrightarrow>
              length r < length cs \<and> (\<forall>k\<ge>length cs - length r. json_value k cs = Some r)"
    and M: "\<And>cs r. json_members n cs = Some r \<Longrightarrow>
              length r < length cs \<and> (\<forall>k\<ge>length cs - length r. json_members k cs = Some r)"
  shows "length r < length s \<and> (\<forall>k\<ge>length s - length r. json_members k s = Some r)"
proof -
  obtain q s1 where sk0: "skip_ws s = q # s1"
    using p by (cases "skip_ws s") (simp_all del: skip_ws.simps)
  have q: "q = CHR 0x22"
    using p sk0 by (simp del: skip_ws.simps split: if_splits)
  obtain s2 where pc: "json_chars s1 = Some s2"
    using p sk0 q by (cases "json_chars s1") (auto simp del: skip_ws.simps)
  obtain colon s3 where sk1: "skip_ws s2 = colon # s3"
    using p sk0 q pc by (cases "skip_ws s2") (simp_all del: skip_ws.simps)
  have colon: "colon = CHR '':''"
    using p sk0 q pc sk1 by (simp del: skip_ws.simps split: if_splits)
  obtain r1 where v: "json_value n s3 = Some r1"
    using p sk0 q pc sk1 colon by (cases "json_value n s3") (auto simp del: skip_ws.simps)
  obtain c r2 where sk: "skip_ws r1 = c # r2"
    using p sk0 q pc sk1 colon v by (cases "skip_ws r1") (simp_all del: skip_ws.simps)
  have l0: "Suc (length s1) \<le> length s"
    using length_skip_ws [of s] by (simp add: sk0 del: skip_ws.simps)
  have lc: "length s2 < length s1"
    using json_chars_length [OF pc] by simp
  have ls: "Suc (length s3) \<le> length s2"
    using length_skip_ws [of s2] by (simp add: sk1 del: skip_ws.simps)
  have l1: "length r1 < length s3"
    and f1: "\<And>k. length s3 - length r1 \<le> k \<Longrightarrow> json_value k s3 = Some r1"
    using V [OF v] by simp_all
  have l2: "Suc (length r2) \<le> length r1"
    using length_skip_ws [of r1] by (simp add: sk del: skip_ws.simps)
  have u: "json_members (Suc j) s =
      (if c = CHR '','' then json_members j r2
       else if c = CHR ''}'' then Some r2 else None)"
    if "json_value j s3 = Some r1" for j
    using that sk0 q pc sk1 colon sk by (simp del: skip_ws.simps)
  have "length r < length s \<and> (\<forall>k\<ge>length s - Suc (length r). json_members (Suc k) s = Some r)"
  proof (cases "c = CHR '',''")
    case True
    from p have e: "json_members n r2 = Some r"
      unfolding u [OF v] using True by simp
    have l3: "length r < length r2"
      and f3: "\<And>k. length r2 - length r \<le> k \<Longrightarrow> json_members k r2 = Some r"
      using M [OF e] by simp_all
    show ?thesis
    proof (intro conjI allI impI)
      show "length r < length s" using l0 lc ls l1 l2 l3 by simp
    next
      fix k assume k: "length s - Suc (length r) \<le> k"
      have 1: "json_value k s3 = Some r1" using k l0 lc ls l1 l2 l3 by (intro f1) simp
      have 2: "json_members k r2 = Some r" using k l0 lc ls l1 l2 l3 by (intro f3) simp
      show "json_members (Suc k) s = Some r"
        unfolding u [OF 1] using True 2 by simp
    qed
  next
    case False
    from p have c: "c = CHR ''}''" and r: "r = r2"
      unfolding u [OF v] using False by (auto split: if_splits)
    show ?thesis
    proof (intro conjI allI impI)
      show "length r < length s" using l0 lc ls l1 l2 r by simp
    next
      fix k assume k: "length s - Suc (length r) \<le> k"
      have 1: "json_value k s3 = Some r1" using k l0 lc ls l1 l2 r by (intro f1) simp
      show "json_members (Suc k) s = Some r"
        unfolding u [OF 1] using c r by simp
    qed
  qed
  then show ?thesis
  proof (intro conjI allI impI)
    fix k assume a: "length r < length s \<and> (\<forall>k\<ge>length s - Suc (length r). json_members (Suc k) s = Some r)"
      and k: "length s - length r \<le> k"
    then obtain k' where k': "k = Suc k'" by (cases k) auto
    show "json_members k s = Some r"
      using a k unfolding k' by auto
  qed simp
qed

lemma json_fuel:
  "(\<forall>s r. json_value n s = Some r \<longrightarrow>
      length r < length s \<and> (\<forall>k\<ge>length s - length r. json_value k s = Some r)) \<and>
   (\<forall>s r. json_elements n s = Some r \<longrightarrow>
      length r < length s \<and> (\<forall>k\<ge>length s - length r. json_elements k s = Some r)) \<and>
   (\<forall>s r. json_members n s = Some r \<longrightarrow>
      length r < length s \<and> (\<forall>k\<ge>length s - length r. json_members k s = Some r))"
proof (induction n)
  case 0
  show ?case by simp
next
  case (Suc n)
  note V = Suc.IH [THEN conjunct1, rule_format]
  note E = Suc.IH [THEN conjunct2, THEN conjunct1, rule_format]
  note M = Suc.IH [THEN conjunct2, THEN conjunct2, rule_format]
  show ?case
  proof (intro conjI)
    show "\<forall>s r. json_value (Suc n) s = Some r \<longrightarrow>
      length r < length s \<and> (\<forall>k\<ge>length s - length r. json_value k s = Some r)"
    proof (intro allI impI)
      fix s r assume "json_value (Suc n) s = Some r"
      then show "length r < length s \<and> (\<forall>k\<ge>length s - length r. json_value k s = Some r)"
        by (rule json_value_step) (erule E M)+
    qed
  next
    show "\<forall>s r. json_elements (Suc n) s = Some r \<longrightarrow>
      length r < length s \<and> (\<forall>k\<ge>length s - length r. json_elements k s = Some r)"
    proof (intro allI impI)
      fix s r assume "json_elements (Suc n) s = Some r"
      then show "length r < length s \<and> (\<forall>k\<ge>length s - length r. json_elements k s = Some r)"
        by (rule json_elements_step) (erule V E)+
    qed
  next
    show "\<forall>s r. json_members (Suc n) s = Some r \<longrightarrow>
      length r < length s \<and> (\<forall>k\<ge>length s - length r. json_members k s = Some r)"
    proof (intro allI impI)
      fix s r assume "json_members (Suc n) s = Some r"
      then show "length r < length s \<and> (\<forall>k\<ge>length s - length r. json_members k s = Some r)"
        by (rule json_members_step) (erule V M)+
    qed
  qed
qed

lemma json_value_fuel:
  assumes "json_value n s = Some r"
  shows "json_value (Suc (length s)) s = Some r"
  using json_fuel [of n, THEN conjunct1, rule_format, OF assms]
  by (simp del: json_value.simps)

lemma json_text_fuel:
  "json_text s \<longleftrightarrow> (\<exists>n r. json_value n s = Some r \<and> skip_ws r = [])"
proof
  assume "json_text s"
  then obtain r where "json_value (Suc (length s)) s = Some r" and "skip_ws r = []"
    unfolding json_text_def by (auto split: option.splits simp del: json_value.simps)
  then show "\<exists>n r. json_value n s = Some r \<and> skip_ws r = []"
    by blast
next
  assume "\<exists>n r. json_value n s = Some r \<and> skip_ws r = []"
  then obtain n r where "json_value n s = Some r" and r: "skip_ws r = []" by blast
  from json_value_fuel [OF this(1)] r show "json_text s"
    unfolding json_text_def by (simp del: json_value.simps)
qed


lemma json_text_stringify: "jsonable v \<Longrightarrow> json_text (stringify v)"
  using parse_stringify [of v] json_text_parse by blast

lemma fraction_not_modelled:
  "json_text ''1.5'' \<and> parse ''1.5'' = None \<and> \<not> modelled ''1.5''
   \<and> json_text ''1e3'' \<and> parse ''1e3'' = None \<and> \<not> modelled ''1e3''"
  by (simp add: modelled_def json_text_def parse_def is_ws_def json_number_def json_frac_def
      json_exp_def json_digits_def parse_int_def parse_nat_def digit_val_def)


subsection \<open>The cell codec\<close>










end
